theory Spec2Isabelle
  imports Main "HOL-Library.AList" "HOL-Library.Sublist"
begin

section \<open>The build queue (src/utils/buildQueue.js)\<close>

text \<open>
  Chat ids and timestamps are JavaScript numbers holding integers; they are modelled as
  \<open>int\<close>. A value is falsy in JavaScript when it is \<open>0\<close>, \<open>NaN\<close>, \<open>null\<close> or
  \<open>undefined\<close>; an optional argument that was left out (\<open>chatId = null\<close>) is \<open>None\<close>.
  \<open>Date.now()\<close> is an explicit argument \<open>now\<close> of every operation that reads the clock.
\<close>

type_synonym chatId = int

record build =
  startTime :: int
  lastActivity :: int

text \<open>
  \<open>activeBuilds\<close> is a JavaScript \<open>Map\<close>: an association list in insertion order, where
  \<open>set\<close> replaces the value of a key in place or appends a new entry, \<open>delete\<close> removes the
  entry of a key, and \<open>size\<close> counts the entries.
\<close>

record BuildQueue =
  maxConcurrent :: int
  activeBuilds :: "(chatId \<times> build) list"

definition MAX_BUILD_TIME :: int where
  "MAX_BUILD_TIME = 45 * 60 * 1000"

definition INACTIVITY_TIMEOUT :: int where
  "INACTIVITY_TIMEOUT = 10 * 60 * 1000"

definition map_has :: "(chatId \<times> build) list \<Rightarrow> chatId \<Rightarrow> bool" where
  "map_has m k = (map_of m k \<noteq> None)"

definition map_size :: "(chatId \<times> build) list \<Rightarrow> int" where
  "map_size m = int (length m)"

definition truthy :: "int \<Rightarrow> bool" where
  "truthy n = (n \<noteq> 0)"

subsection \<open>The constructor: \<open>parseInt(process.env.MAX_CONCURRENT_BUILDS) || 1\<close>, clamped\<close>

text \<open>
  \<open>parseInt\<close> with no radix: leading white space is skipped, then an optional sign, then an
  optional \<open>0x\<close>/\<open>0X\<close> prefix (radix 16, otherwise 10), then the longest run of digits of the
  radix; no digit gives \<open>NaN\<close> (\<open>None\<close>). A missing variable is \<open>undefined\<close>, which
  \<open>parseInt\<close> reads as the string \<open>undefined\<close>. The result is kept as the exact integer; the
  rounding of very long digit strings to a double (or to \<open>Infinity\<close>) is monotone and fixes
  the integers 0 to 4, so it does not change the clamped value.
\<close>

definition isWhiteSpace :: "char \<Rightarrow> bool" where
  "isWhiteSpace c = (c \<in> set [CHR 0x09, CHR 0x0A, CHR 0x0B, CHR 0x0C, CHR 0x0D, CHR 0x20, CHR 0xA0])"

definition digitValue :: "char \<Rightarrow> nat option" where
  "digitValue c =
     (let n = (of_char c :: nat) in
      if 48 \<le> n \<and> n \<le> 57 then Some (n - 48)
      else if 97 \<le> n \<and> n \<le> 122 then Some (n - 87)
      else if 65 \<le> n \<and> n \<le> 90 then Some (n - 55)
      else None)"

definition isDigitOf :: "nat \<Rightarrow> char \<Rightarrow> bool" where
  "isDigitOf R c = (case digitValue c of None \<Rightarrow> False | Some d \<Rightarrow> d < R)"

definition digitsValue :: "nat \<Rightarrow> string \<Rightarrow> int" where
  "digitsValue R ds = foldl (\<lambda>a c. a * int R + int (case digitValue c of None \<Rightarrow> 0 | Some d \<Rightarrow> d)) 0 ds"

definition parseInt :: "string option \<Rightarrow> int option" where
  "parseInt v =
     (let s = dropWhile isWhiteSpace (case v of None \<Rightarrow> ''undefined'' | Some t \<Rightarrow> t);
          sign = (if prefix ''-'' s then - 1 else 1);
          s2 = (if prefix ''-'' s \<or> prefix ''+'' s then drop 1 s else s);
          hex = (prefix ''0x'' s2 \<or> prefix ''0X'' s2);
          R = (if hex then 16 else 10);
          s3 = (if hex then drop 2 s2 else s2);
          ds = takeWhile (isDigitOf R) s3
      in if ds = [] then None else Some (sign * digitsValue R ds))"

definition or_default :: "int option \<Rightarrow> int \<Rightarrow> int" where
  "or_default v d = (case v of None \<Rightarrow> d | Some n \<Rightarrow> if truthy n then n else d)"

definition constructor :: "string option \<Rightarrow> BuildQueue" where
  "constructor MAX_CONCURRENT_BUILDS =
     \<lparr> maxConcurrent = max 1 (min (or_default (parseInt MAX_CONCURRENT_BUILDS) 1) 4),
       activeBuilds = [] \<rparr>"

subsection \<open>Operations\<close>

definition acquire :: "chatId \<Rightarrow> int \<Rightarrow> BuildQueue \<Rightarrow> bool \<times> BuildQueue" where
  "acquire chat now q =
     (if map_has (activeBuilds q) chat then (False, q)
      else if map_size (activeBuilds q) \<ge> maxConcurrent q then (False, q)
      else (True, q\<lparr>activeBuilds :=
              AList.update chat \<lparr>startTime = now, lastActivity = now\<rparr> (activeBuilds q)\<rparr>))"

definition release :: "chatId \<Rightarrow> BuildQueue \<Rightarrow> BuildQueue" where
  "release chat q =
     (case map_of (activeBuilds q) chat of
        None \<Rightarrow> q
      | Some b \<Rightarrow> q\<lparr>activeBuilds := AList.delete chat (activeBuilds q)\<rparr>)"

definition forceRelease :: "chatId option \<Rightarrow> BuildQueue \<Rightarrow> BuildQueue" where
  "forceRelease chat q =
     (case chat of
        Some c \<Rightarrow>
          if truthy c then
            (if map_has (activeBuilds q) c
             then q\<lparr>activeBuilds := AList.delete c (activeBuilds q)\<rparr> else q)
          else q\<lparr>activeBuilds := []\<rparr>
      | None \<Rightarrow> q\<lparr>activeBuilds := []\<rparr>)"

definition bump :: "int \<Rightarrow> build \<Rightarrow> build" where
  "bump now b = b\<lparr>lastActivity := now\<rparr>"

definition updateActivity :: "chatId option \<Rightarrow> int \<Rightarrow> BuildQueue \<Rightarrow> BuildQueue" where
  "updateActivity chat now q =
     (case chat of
        Some c \<Rightarrow>
          if truthy c \<and> map_has (activeBuilds q) c
          then q\<lparr>activeBuilds := AList.map_entry c (bump now) (activeBuilds q)\<rparr>
          else q\<lparr>activeBuilds := map (\<lambda>(k, b). (k, bump now b)) (activeBuilds q)\<rparr>
      | None \<Rightarrow> q\<lparr>activeBuilds := map (\<lambda>(k, b). (k, bump now b)) (activeBuilds q)\<rparr>)"

text \<open>
  The watchdog pass. \<open>build.lastActivity || build.startTime\<close> falls back to the start time
  when \<open>lastActivity\<close> is falsy. The first loop collects the ids to release, the second
  calls \<open>forceRelease\<close> on each of them in order.
\<close>

definition stuck :: "int \<Rightarrow> build \<Rightarrow> bool" where
  "stuck now b =
     (let totalTime = now - startTime b;
          inactiveTime = now - (if truthy (lastActivity b) then lastActivity b else startTime b)
      in if totalTime > MAX_BUILD_TIME then True
         else inactiveTime > INACTIVITY_TIMEOUT)"

definition toRelease :: "int \<Rightarrow> (chatId \<times> build) list \<Rightarrow> chatId list" where
  "toRelease now m = map fst (filter (\<lambda>(k, b). stuck now b) m)"

definition checkStuckBuilds :: "int \<Rightarrow> BuildQueue \<Rightarrow> BuildQueue" where
  "checkStuckBuilds now q =
     (if map_size (activeBuilds q) = 0 then q
      else foldl (\<lambda>q' c. forceRelease (Some c) q') q (toRelease now (activeBuilds q)))"

definition isBusy :: "BuildQueue \<Rightarrow> bool" where
  "isBusy q = (map_size (activeBuilds q) \<ge> maxConcurrent q)"

definition getActiveCount :: "BuildQueue \<Rightarrow> int" where
  "getActiveCount q = map_size (activeBuilds q)"

subsection \<open>Sequences of operations\<close>

datatype queue_op =
    Acquire chatId int
  | Release chatId
  | ForceRelease "chatId option"
  | UpdateActivity "chatId option" int
  | CheckStuckBuilds int

fun apply_queue_op :: "BuildQueue \<Rightarrow> queue_op \<Rightarrow> BuildQueue" where
  "apply_queue_op q (Acquire c now) = snd (acquire c now q)"
| "apply_queue_op q (Release c) = release c q"
| "apply_queue_op q (ForceRelease c) = forceRelease c q"
| "apply_queue_op q (UpdateActivity c now) = updateActivity c now q"
| "apply_queue_op q (CheckStuckBuilds now) = checkStuckBuilds now q"

definition run_queue :: "BuildQueue \<Rightarrow> queue_op list \<Rightarrow> BuildQueue" where
  "run_queue q ops = foldl apply_queue_op q ops"

text \<open>
  Well-formed queue states: the keys of the \<open>Map\<close> are pairwise different, and no chat id
  and no \<open>lastActivity\<close> is a falsy number. Every state the constructor and the operations
  produce from non-zero chat ids at non-zero clock readings is of this kind
  (lemma \<open>run_queue_wf\<close>).
\<close>

definition wf_queue :: "BuildQueue \<Rightarrow> bool" where
  "wf_queue q =
     (distinct (map fst (activeBuilds q)) \<and>
      (\<forall>(c, b) \<in> set (activeBuilds q). truthy c \<and> truthy (lastActivity b)))"

fun wf_op :: "queue_op \<Rightarrow> bool" where
  "wf_op (Acquire c now) = (truthy c \<and> truthy now)"
| "wf_op (Release c) = True"
| "wf_op (ForceRelease c) = True"
| "wf_op (UpdateActivity c now) = truthy now"
| "wf_op (CheckStuckBuilds now) = True"


text \<open>An example run: three builds, two of them reporting progress later.\<close>

definition three_builds :: "queue_op list" where
  "three_builds =
     [Acquire 11 1000, Acquire 12 2400000, Acquire 13 2900000,
      UpdateActivity (Some 13) 3050000, UpdateActivity (Some 11) 3099000]"

section \<open>Locating the APK (src/builder/zipBuilder.js)\<close>

text \<open>
  What the search sees of the file system below the directory it is given: \<open>fs.stat\<close> on an
  entry says a regular file, a directory (whose \<open>fs.readdir\<close> lists its entries, in order, or
  throws), something else (a socket, a device), or throws (a dangling symbolic link).
  A path is the list of its components; \<open>path.join(dir, item)\<close> appends one component.
\<close>

datatype node =
    RegularFile
  | Directory "(string \<times> node) list"
  | UnreadableDirectory
  | Other
  | StatFails

type_synonym path = "string list"

text \<open>
  \<open>findFileRecursive(dir, ext, maxDepth = 5, depth = 0)\<close>. The first argument is the node at
  \<open>dir\<close>. \<open>scanItems\<close> is the \<open>for\<close> loop over the entries; the whole loop is inside one
  \<open>try\<close>, so an exception of \<open>fs.stat\<close> ends the loop of this directory with \<open>null\<close>.
\<close>

fun findFileRecursive :: "node \<Rightarrow> path \<Rightarrow> string \<Rightarrow> nat \<Rightarrow> nat \<Rightarrow> path option"
  and scanItems :: "(string \<times> node) list \<Rightarrow> path \<Rightarrow> string \<Rightarrow> nat \<Rightarrow> nat \<Rightarrow> path option" where
  "findFileRecursive (Directory items) dir ext maxDepth depth =
     (if depth > maxDepth then None else scanItems items dir ext maxDepth depth)"
| "findFileRecursive RegularFile dir ext maxDepth depth = None"
| "findFileRecursive UnreadableDirectory dir ext maxDepth depth = None"
| "findFileRecursive Other dir ext maxDepth depth = None"
| "findFileRecursive StatFails dir ext maxDepth depth = None"
| "scanItems [] dir ext maxDepth depth = None"
| "scanItems ((item, StatFails) # rest) dir ext maxDepth depth = None"
| "scanItems ((item, RegularFile) # rest) dir ext maxDepth depth =
     (if suffix ext item then Some (dir @ [item])
      else scanItems rest dir ext maxDepth depth)"
| "scanItems ((item, Directory sub) # rest) dir ext maxDepth depth =
     (if \<not> prefix ''.'' item \<and> item \<noteq> ''node_modules'' then
        (case findFileRecursive (Directory sub) (dir @ [item]) ext maxDepth (depth + 1) of
           Some found \<Rightarrow> Some found
         | None \<Rightarrow> scanItems rest dir ext maxDepth depth)
      else scanItems rest dir ext maxDepth depth)"
| "scanItems ((item, UnreadableDirectory) # rest) dir ext maxDepth depth =
     (if \<not> prefix ''.'' item \<and> item \<noteq> ''node_modules'' then
        (case findFileRecursive UnreadableDirectory (dir @ [item]) ext maxDepth (depth + 1) of
           Some found \<Rightarrow> Some found
         | None \<Rightarrow> scanItems rest dir ext maxDepth depth)
      else scanItems rest dir ext maxDepth depth)"
| "scanItems ((item, Other) # rest) dir ext maxDepth depth =
     scanItems rest dir ext maxDepth depth"

text \<open>
  \<open>findApk\<close> probes four known output paths with \<open>fs.pathExists\<close> and falls back to the
  recursive search with the default \<open>maxDepth\<close> and \<open>depth\<close>.
\<close>

fun path_exists :: "node \<Rightarrow> path \<Rightarrow> bool" where
  "path_exists n [] = (n \<noteq> StatFails)"
| "path_exists (Directory items) (d # ds) =
     (\<exists>(name, child) \<in> set items. name = d \<and> path_exists child ds)"
| "path_exists n (d # ds) = False"

definition possiblePaths :: "string \<Rightarrow> path list" where
  "possiblePaths buildType =
     [[''app'', ''build'', ''outputs'', ''apk'', buildType, ''app-'' @ buildType @ ''.apk''],
      [''build'', ''outputs'', ''apk'', buildType, ''app-'' @ buildType @ ''.apk''],
      [''app'', ''build'', ''outputs'', ''apk'', buildType, ''app-debug.apk''],
      [''build'', ''outputs'', ''apk'', buildType, ''app-debug.apk'']]"

definition findApk :: "node \<Rightarrow> path \<Rightarrow> string \<Rightarrow> path option" where
  "findApk root projectDir buildType =
     (case find (path_exists root) (possiblePaths buildType) of
        Some p \<Rightarrow> Some (projectDir @ p)
      | None \<Rightarrow> findFileRecursive root projectDir ''.apk'' 5 0)"

text \<open>
  The vocabulary of the statements about the search: a regular file named \<open>f\<close> below the
  directories \<open>ds\<close> of a node, trees without an entry whose \<open>fs.stat\<close> throws, the directory
  names the search skips, and two example trees.
\<close>

fun file_at :: "node \<Rightarrow> string list \<Rightarrow> string \<Rightarrow> bool" where
  "file_at (Directory items) [] f = ((f, RegularFile) \<in> set items)"
| "file_at (Directory items) (d # ds) f = (\<exists>(name, child) \<in> set items. name = d \<and> file_at child ds f)"
| "file_at n ds f = False"

fun stat_ok :: "node \<Rightarrow> bool" and stat_ok_items :: "(string \<times> node) list \<Rightarrow> bool" where
  "stat_ok (Directory items) = stat_ok_items items"
| "stat_ok StatFails = False"
| "stat_ok RegularFile = True"
| "stat_ok UnreadableDirectory = True"
| "stat_ok Other = True"
| "stat_ok_items [] = True"
| "stat_ok_items ((item, child) # rest) = (stat_ok child \<and> stat_ok_items rest)"

definition excluded :: "string \<Rightarrow> bool" where
  "excluded d = (prefix ''.'' d \<or> d = ''node_modules'')"

definition found_ok :: "node \<Rightarrow> path \<Rightarrow> string \<Rightarrow> nat \<Rightarrow> nat \<Rightarrow> path \<Rightarrow> bool" where
  "found_ok n dir ext m k p =
     (\<exists>ds f. p = dir @ ds @ [f] \<and> k + length ds \<le> m \<and> (\<forall>d \<in> set ds. \<not> excluded d)
        \<and> suffix ext f \<and> file_at n ds f)"

definition tree3 :: node where
  "tree3 = Directory
     [(''README.md'', RegularFile),
      (''.gradle'', Directory [(''cached.apk'', RegularFile)]),
      (''node_modules'', Directory [(''dep.apk'', RegularFile)]),
      (''dist'', Directory [(''android'', Directory [(''bin'', Directory
          [(''notes.txt'', RegularFile), (''app.apk'', RegularFile)])])])]"

definition tree6 :: node where
  "tree6 = Directory
     [(''a'', Directory [(''b'', Directory [(''c'', Directory [(''d'', Directory
        [(''e'', Directory [(''f'', Directory [(''app.apk'', RegularFile)])])])])])])]"

section \<open>The process supervisor: \<open>runCommand\<close> (src/builder/zipBuilder.js)\<close>

subsection \<open>JavaScript string operations\<close>

text \<open>
  A JavaScript string is modelled as a \<open>string\<close>, one \<open>char\<close> for each code unit; the
  code units 0 to 255 are represented, and every literal of the code lies among them.
  \<open>s.includes(t)\<close> is \<open>sublist t s\<close>, \<open>s.startsWith(t)\<close> is \<open>prefix t s\<close>,
  \<open>s.endsWith(t)\<close> is \<open>suffix t s\<close> and \<open>s.substring(0, n)\<close> is \<open>take n s\<close>.
\<close>

definition js_includes :: "string \<Rightarrow> string \<Rightarrow> bool" where
  "js_includes s t = sublist t s"

definition newline :: char where
  "newline = CHR 0x0A"

fun split :: "char \<Rightarrow> string \<Rightarrow> string list" where
  "split sep [] = [[]]"
| "split sep (c # cs) =
     (if c = sep then [] # split sep cs
      else (case split sep cs of [] \<Rightarrow> [[c]] | l # ls \<Rightarrow> (c # l) # ls))"

fun join :: "string \<Rightarrow> string list \<Rightarrow> string" where
  "join sep [] = []"
| "join sep [l] = l"
| "join sep (l # l' # ls) = l @ sep @ join sep (l' # ls)"

definition trim :: "string \<Rightarrow> string" where
  "trim s = rev (dropWhile isWhiteSpace (rev (dropWhile isWhiteSpace s)))"

text \<open>\<open>xs.slice(-n)\<close>: the last \<open>n\<close> elements, all of them when there are fewer.\<close>

definition slice_last :: "nat \<Rightarrow> 'a list \<Rightarrow> 'a list" where
  "slice_last n xs = drop (length xs - n) xs"

text \<open>\<open>[...new Set(xs)]\<close>: the elements in the order of their first occurrence.\<close>

definition uniq :: "'a list \<Rightarrow> 'a list" where
  "uniq xs = foldl (\<lambda>acc x. if x \<in> set acc then acc else acc @ [x]) [] xs"

fun digits :: "nat \<Rightarrow> string" where
  "digits n =
     (if n < 10 then [''0123456789'' ! n]
      else digits (n div 10) @ [''0123456789'' ! (n mod 10)])"

text \<open>The exit code in a template string: a number, or \<open>null\<close> when a signal ended the process.\<close>

definition show_code :: "int option \<Rightarrow> string" where
  "show_code code =
     (case code of
        None \<Rightarrow> ''null''
      | Some n \<Rightarrow> if n < 0 then ''-'' @ digits (nat (- n)) else digits (nat n))"

subsection \<open>The error patterns\<close>

text \<open>
  Eight of the nine regular expressions have the shape \<open>/LIT.*$/gm\<close> (some with \<open>i\<close>): a
  match starts where the literal matches and runs to the end of the line (\<open>.\<close> matches no
  line terminator, and \<open>$\<close> with \<open>m\<close> holds before one and at the end of the input). The
  fifth is \<open>/\* What went wrong:[\s\S]*?(?=\* Try:|\* Get more help|$)/gm\<close>: after the
  literal, the lazy \<open>[\s\S]*?\<close> takes characters until the look-ahead holds, that is until
  \<open>* Try:\<close> or \<open>* Get more help\<close> follows or the line ends. With \<open>g\<close>, \<open>match\<close> returns
  all matches from left to right, each search starting where the last match ended, or
  \<open>null\<close> (here the empty list) when there is none. With \<open>i\<close> and an ASCII literal, a
  character matches when it equals the literal's character up to ASCII letter case.
\<close>

datatype tail = ToEndOfLine | ToNextSection

record pattern =
  ignoreCase :: bool
  pat_literal :: string
  pat_tail :: tail

definition isLineTerminator :: "char \<Rightarrow> bool" where
  "isLineTerminator c = (c = CHR 0x0A \<or> c = CHR 0x0D)"

definition canonicalize :: "char \<Rightarrow> char" where
  "canonicalize c =
     (case map_of (zip ''abcdefghijklmnopqrstuvwxyz'' ''ABCDEFGHIJKLMNOPQRSTUVWXYZ'') c of
        Some u \<Rightarrow> u
      | None \<Rightarrow> c)"

definition literalAt :: "pattern \<Rightarrow> string \<Rightarrow> bool" where
  "literalAt p s =
     (if ignoreCase p then prefix (map canonicalize (pat_literal p)) (map canonicalize s)
      else prefix (pat_literal p) s)"

fun lazyToSection :: "string \<Rightarrow> string" where
  "lazyToSection [] = []"
| "lazyToSection (c # cs) =
     (if prefix ''* Try:'' (c # cs) \<or> prefix ''* Get more help'' (c # cs) \<or> isLineTerminator c
      then [] else c # lazyToSection cs)"

definition matchAt :: "pattern \<Rightarrow> string \<Rightarrow> string" where
  "matchAt p s =
     take (length (pat_literal p)) s @
     (case pat_tail p of
        ToEndOfLine \<Rightarrow> takeWhile (\<lambda>c. \<not> isLineTerminator c) (drop (length (pat_literal p)) s)
      | ToNextSection \<Rightarrow> lazyToSection (drop (length (pat_literal p)) s))"

text \<open>
  \<open>scan p s skip\<close> walks the input; \<open>skip\<close> counts the characters still inside the last
  match.
\<close>

fun scan :: "pattern \<Rightarrow> string \<Rightarrow> nat \<Rightarrow> string list" where
  "scan p [] skip = []"
| "scan p (c # cs) skip =
     (if skip > 0 then scan p cs (skip - 1)
      else if literalAt p (c # cs)
           then matchAt p (c # cs) # scan p cs (length (matchAt p (c # cs)) - 1)
           else scan p cs 0)"

definition js_match :: "string \<Rightarrow> pattern \<Rightarrow> string list" where
  "js_match s p = scan p s 0"

definition errorPatterns :: "pattern list" where
  "errorPatterns =
     [\<lparr>ignoreCase = False, pat_literal = ''FAILURE:'', pat_tail = ToEndOfLine\<rparr>,
      \<lparr>ignoreCase = True, pat_literal = ''error:'', pat_tail = ToEndOfLine\<rparr>,
      \<lparr>ignoreCase = False, pat_literal = ''Error:'', pat_tail = ToEndOfLine\<rparr>,
      \<lparr>ignoreCase = False, pat_literal = ''Exception:'', pat_tail = ToEndOfLine\<rparr>,
      \<lparr>ignoreCase = False, pat_literal = ''* What went wrong:'', pat_tail = ToNextSection\<rparr>,
      \<lparr>ignoreCase = True, pat_literal = ''Could not'', pat_tail = ToEndOfLine\<rparr>,
      \<lparr>ignoreCase = True, pat_literal = ''Cannot'', pat_tail = ToEndOfLine\<rparr>,
      \<lparr>ignoreCase = True, pat_literal = ''failed'', pat_tail = ToEndOfLine\<rparr>,
      \<lparr>ignoreCase = True, pat_literal = ''not found'', pat_tail = ToEndOfLine\<rparr>]"

subsection \<open>The \<open>close\<close> handler\<close>

datatype outcome = Resolve string | Reject string

definition allOutput :: "string \<Rightarrow> string \<Rightarrow> string" where
  "allOutput out err = out @ [newline] @ err"

definition matchedLines :: "string \<Rightarrow> string list" where
  "matchedLines s = concat (map (js_match s) errorPatterns)"

definition errorLines :: "string \<Rightarrow> string list" where
  "errorLines s = take 10 (uniq (matchedLines s))"

definition lastLines :: "string \<Rightarrow> string list" where
  "lastLines s = slice_last 20 (filter (\<lambda>l. trim l \<noteq> []) (split newline s))"

definition errorMsg :: "int option \<Rightarrow> string \<Rightarrow> string" where
  "errorMsg code s =
     (if errorLines s \<noteq> [] then join [newline] (errorLines s)
      else if join [newline] (lastLines s) \<noteq> [] then join [newline] (lastLines s)
      else ''Build failed with code '' @ show_code code)"

definition debugPointer :: "string \<Rightarrow> string" where
  "debugPointer logFile = [newline, newline] @ ''[Debug log: '' @ logFile @ ''.error]''"

definition onClose :: "string \<Rightarrow> int option \<Rightarrow> string \<Rightarrow> string \<Rightarrow> outcome" where
  "onClose logFile code out err =
     (if code = Some 0 then Resolve out
      else Reject (take 1500 (errorMsg code (allOutput out err)) @ debugPointer logFile))"

subsection \<open>The supervised process as an event-driven state\<close>

text \<open>
  The promise of \<open>runCommand\<close> settles once: later \<open>resolve\<close> and \<open>reject\<close> calls do nothing.
  \<open>timer\<close> says whether the \<open>setInterval\<close> check is still installed, \<open>killed\<close> whether
  \<open>proc.kill()\<close> was called (with no argument, so the signal is \<open>SIGTERM\<close>), and
  \<open>forwarded\<close> lists the arguments of the calls of \<open>onOutput\<close>. \<open>lastActivity_p\<close> is the
  variable \<open>lastActivity\<close> of \<open>runCommand\<close>. The writes to the log files are left out:
  they change nothing of this state.
\<close>

record supervised =
  stdout :: string
  stderr :: string
  lastActivity_p :: int
  settled :: "outcome option"
  timer :: bool
  killed :: bool
  forwarded :: "string list"

datatype event =
    StdoutData int string
  | StderrData int string
  | Close "int option"
  | SpawnError string
  | Tick int

definition TIMEOUT_MS :: int where
  "TIMEOUT_MS = 30 * 60 * 1000"

definition spawn :: "int \<Rightarrow> supervised" where
  "spawn now =
     \<lparr>stdout = [], stderr = [], lastActivity_p = now, settled = None, timer = True,
      killed = False, forwarded = []\<rparr>"

definition settle :: "outcome \<Rightarrow> supervised \<Rightarrow> supervised" where
  "settle r p = (case settled p of None \<Rightarrow> p\<lparr>settled := Some r\<rparr> | Some r' \<Rightarrow> p)"

definition stdoutForward :: "string \<Rightarrow> string list" where
  "stdoutForward text =
     (let lines = filter (\<lambda>l. trim l \<noteq> []) (split newline text)
      in if length lines > 0 then [take 150 (last lines)] else [])"

definition stderrForward :: "string \<Rightarrow> string list" where
  "stderrForward text =
     (if js_includes text ''error'' \<or> js_includes text ''Error'' \<or> js_includes text ''Exception''
      then [''[!] '' @ take 150 text] else [])"

text \<open>
  One event of the child process or of the interval timer. \<open>onOutput\<close> says whether the
  caller passed the callback; \<open>logFile\<close> is the name chosen at the start.
\<close>

fun on_event :: "bool \<Rightarrow> string \<Rightarrow> supervised \<Rightarrow> event \<Rightarrow> supervised" where
  "on_event onOutput logFile p (StdoutData now text) =
     p\<lparr>stdout := stdout p @ text, lastActivity_p := now,
       forwarded := forwarded p @ (if onOutput then stdoutForward text else [])\<rparr>"
| "on_event onOutput logFile p (StderrData now text) =
     p\<lparr>stderr := stderr p @ text, lastActivity_p := now,
       forwarded := forwarded p @ (if onOutput then stderrForward text else [])\<rparr>"
| "on_event onOutput logFile p (Close code) =
     (settle (onClose logFile code (stdout p) (stderr p)) p)\<lparr>timer := False\<rparr>"
| "on_event onOutput logFile p (SpawnError err) = settle (Reject err) p"
| "on_event onOutput logFile p (Tick now) =
     (if timer p \<and> now - lastActivity_p p > TIMEOUT_MS
      then (settle (Reject ''Build timeout (30 minutes of inactivity)'') p)
             \<lparr>timer := False, killed := True\<rparr>
      else p)"

definition runCommand :: "bool \<Rightarrow> string \<Rightarrow> int \<Rightarrow> event list \<Rightarrow> supervised" where
  "runCommand onOutput logFile start evs = foldl (on_event onOutput logFile) (spawn start) evs"

subsection \<open>The supervisor of the Gradle step: \<open>runGradle\<close> (the builder behind \<open>buildApk\<close>)\<close>

text \<open>
  \<open>buildApk\<close>, the pipeline of the templated-URL build, runs its one child process through
  \<open>runGradle\<close>. Its promise is only ever resolved, with \<open>{success: true}\<close> or
  \<open>{success: false, error}\<close>, and settles once. Before the process is spawned the wrapper
  jar is looked for and, when missing, downloaded; a failed download resolves with a failure
  and nothing is spawned. \<open>buildStartTime\<close> is read once, when the timer is installed, and
  no handler writes it. \<open>sigkill_sent\<close> says that \<open>gradle.kill('SIGKILL')\<close> was called (an
  exception of the call is caught). \<open>g_progress\<close> lists the calls of \<open>onProgress\<close>, the
  messages without their leading pictograph.
\<close>

datatype gradle_result = GradleSuccess | GradleFailure string

datatype wrapper_jar = Present | Downloaded | DownloadFailed

record gradle =
  g_stdout :: string
  g_stderr :: string
  buildStartTime :: int
  g_settled :: "gradle_result option"
  g_timer :: bool
  sigkill_sent :: bool
  g_progress :: "string list"

definition TIMEOUT_MS_gradle :: int where
  "TIMEOUT_MS_gradle = 30 * 60 * 1000"

definition resolve :: "gradle_result \<Rightarrow> gradle \<Rightarrow> gradle" where
  "resolve r g = (case g_settled g of None \<Rightarrow> g\<lparr>g_settled := Some r\<rparr> | Some r' \<Rightarrow> g)"

text \<open>\<open>a || b\<close> on strings: the empty string is falsy.\<close>

definition or_string :: "string \<Rightarrow> string \<Rightarrow> string" where
  "or_string a b = (if a \<noteq> [] then a else b)"

fun findIndex :: "('a \<Rightarrow> bool) \<Rightarrow> 'a list \<Rightarrow> nat option" where
  "findIndex P [] = None"
| "findIndex P (x # xs) = (if P x then Some 0 else map_option Suc (findIndex P xs))"

text \<open>
  The message of a failed Gradle run, from \<open>stdout + stderr\<close>. \<open>findIndex\<close> gives \<open>-1\<close>
  (\<open>None\<close>) when no line has \<open>BUILD FAILED\<close>; an index out of range reads \<open>undefined\<close>,
  which is falsy.
\<close>

definition gradleErrorMsg :: "string \<Rightarrow> string" where
  "gradleErrorMsg out =
     (if js_includes out ''SDK location not found''
      then ''Android SDK tidak ditemukan. Pastikan ANDROID_HOME sudah diset.''
      else if js_includes out ''JAVA_HOME''
      then ''Java tidak ditemukan. Pastikan JAVA_HOME sudah diset.''
      else if js_includes out ''Could not find com.android.tools''
      then ''Android Gradle Plugin tidak ditemukan. Periksa koneksi internet.''
      else if js_includes out ''error:''
      then (case filter (\<lambda>l. js_includes l ''error:'') (split newline out) of
              [] \<Rightarrow> ''Build gagal dengan error''
            | l # ls \<Rightarrow> or_string l ''Build gagal dengan error'')
      else (let lines = filter (\<lambda>l. trim l \<noteq> []) (split newline out)
            in case findIndex (\<lambda>l. js_includes l ''BUILD FAILED'') lines of
                 Some (Suc i) \<Rightarrow> or_string (lines ! i) (lines ! Suc i)
               | _ \<Rightarrow> (if lines = [] then ''Build gagal'' else or_string (last lines) ''Build gagal'')))"

definition gradle_timeout_error :: string where
  "gradle_timeout_error =
     ''Build timeout (exceeded 30 minutes). Server mungkin overloaded, coba lagi nanti.''"

definition gradle_spawn :: "wrapper_jar \<Rightarrow> int \<Rightarrow> gradle" where
  "gradle_spawn jar now =
     \<lparr>g_stdout = [], g_stderr = [], buildStartTime = now, g_settled = None, g_timer = True,
      sigkill_sent = False,
      g_progress = (if jar = Downloaded then [''Downloading Gradle wrapper...''] else [])
                   @ [''Building with Gradle 7.5 (via wrapper)...'']\<rparr>"

fun on_gradle_event :: "gradle \<Rightarrow> event \<Rightarrow> gradle" where
  "on_gradle_event g (StdoutData now text) =
     g\<lparr>g_stdout := g_stdout g @ text,
       g_progress := g_progress g @ (if js_includes text ''BUILD'' then [''Building...''] else [])\<rparr>"
| "on_gradle_event g (StderrData now text) = g\<lparr>g_stderr := g_stderr g @ text\<rparr>"
| "on_gradle_event g (Close code) =
     (resolve (if code = Some 0 then GradleSuccess
               else GradleFailure (gradleErrorMsg (g_stdout g @ g_stderr g))) g)
       \<lparr>g_timer := False\<rparr>"
| "on_gradle_event g (SpawnError err) = resolve (GradleFailure err) g"
| "on_gradle_event g (Tick now) =
     (if g_timer g \<and> now - buildStartTime g > TIMEOUT_MS_gradle
      then (resolve (GradleFailure gradle_timeout_error) g)\<lparr>g_timer := False, sigkill_sent := True\<rparr>
      else g)"

definition runGradle :: "wrapper_jar \<Rightarrow> int \<Rightarrow> event list \<Rightarrow> gradle" where
  "runGradle jar start evs =
     (if jar = DownloadFailed
      then \<lparr>g_stdout = [], g_stderr = [], buildStartTime = start,
            g_settled = Some (GradleFailure
              ''Gagal download Gradle wrapper. Periksa koneksi internet.''),
            g_timer = False, sigkill_sent = False,
            g_progress = [''Downloading Gradle wrapper...'']\<rparr>
      else foldl on_gradle_event (gradle_spawn jar start) evs)"

text \<open>
  The vocabulary of the statements about the supervisors. \<open>includes_ignoring_case\<close> is the
  containment test of the specification's sentence on stderr chunks (``case-insensitive''),
  to be compared with \<open>stderrForward\<close>. \<open>only_output_and_polls\<close> describes a child process
  that is alive: it writes chunks and is polled by the timer, and neither \<open>close\<close> nor
  \<open>error\<close> has come. \<open>polled_within_of_start d t0 evs\<close> says that every poll comes at most
  \<open>d\<close> milliseconds after \<open>t0\<close>; \<open>polled_within_of_output d t0 evs\<close> that every poll comes at
  most \<open>d\<close> milliseconds after the latest chunk before it, or after \<open>t0\<close> when there is none.
\<close>

definition includes_ignoring_case :: "string \<Rightarrow> string \<Rightarrow> bool" where
  "includes_ignoring_case s t = sublist (map canonicalize t) (map canonicalize s)"

fun only_output_and_polls :: "event list \<Rightarrow> bool" where
  "only_output_and_polls [] = True"
| "only_output_and_polls (StdoutData now text # evs) = only_output_and_polls evs"
| "only_output_and_polls (StderrData now text # evs) = only_output_and_polls evs"
| "only_output_and_polls (Tick now # evs) = only_output_and_polls evs"
| "only_output_and_polls (Close code # evs) = False"
| "only_output_and_polls (SpawnError err # evs) = False"

fun polled_within_of_start :: "int \<Rightarrow> int \<Rightarrow> event list \<Rightarrow> bool" where
  "polled_within_of_start d t0 [] = True"
| "polled_within_of_start d t0 (Tick now # evs) =
     (now - t0 \<le> d \<and> polled_within_of_start d t0 evs)"
| "polled_within_of_start d t0 (ev # evs) = polled_within_of_start d t0 evs"

fun polled_within_of_output :: "int \<Rightarrow> int \<Rightarrow> event list \<Rightarrow> bool" where
  "polled_within_of_output d t0 [] = True"
| "polled_within_of_output d t0 (StdoutData now text # evs) = polled_within_of_output d now evs"
| "polled_within_of_output d t0 (StderrData now text # evs) = polled_within_of_output d now evs"
| "polled_within_of_output d t0 (Tick now # evs) =
     (now - t0 \<le> d \<and> polled_within_of_output d t0 evs)"
| "polled_within_of_output d t0 (ev # evs) = polled_within_of_output d t0 evs"

text \<open>
  Two runs of a process that keeps writing: a chunk every 25 minutes, polled one minute
  after each chunk, until minute 101; and one chunk after 1 second.
\<close>

definition chatty_run :: "event list" where
  "chatty_run =
     [StdoutData 1500000 ''a'', Tick 1560000, StdoutData 3000000 ''b'', Tick 3060000,
      StdoutData 4500000 ''c'', Tick 4560000, StdoutData 6000000 ''d'', Tick 6060000]"

definition nonblank :: "string \<Rightarrow> bool" where
  "nonblank l = (\<exists>c \<in> set l. \<not> isWhiteSpace c)"

text \<open>Example output of a failing command in which no error pattern matches.\<close>

definition quiet_out :: string where
  "quiet_out = ''ok'' @ [newline] @ '' ''"

definition quiet_err :: string where
  "quiet_err = ''boom''"

section \<open>The ZIP build pipeline: \<open>buildFromZip\<close> (src/builder/zipBuilder.js)\<close>

text \<open>
  The steps of \<open>buildFromZip\<close> act on the file system and on child processes. The model
  records the calls in order and takes their outcomes from an environment: \<open>None\<close> means
  the call returned, \<open>Some msg\<close> that it threw an error with that message.
  \<open>findProjectRoot\<close> returns a directory or \<open>null\<close>, or throws; \<open>buildFlutter\<close> and
  \<open>buildAndroid\<close> return the path of the APK or throw. Every \<open>fs.remove\<close> of
  \<open>buildFromZip\<close> is followed by \<open>.catch(() => { })\<close>: the call is recorded with its
  outcome, and the outcome is not looked at.
\<close>

datatype fs_call =
    EnsureDir string
  | ExtractAllTo string string
  | FindProjectRoot string string
  | BuildFlutter string string
  | BuildAndroid string string
  | Remove string bool

record zip_env =
  onProgress1 :: "string option"
  ensureDir :: "string option"
  extractAll :: "string option"
  findProjectRoot :: "string + string option"
  onProgress2 :: "string option"
  buildProject :: "string + string"
  remove_ok :: "string \<Rightarrow> bool"

datatype build_result =
    BuildSuccess string string
  | BuildFailure string

definition tempDirOf :: "string \<Rightarrow> string" where
  "tempDirOf jobId = ''temp/'' @ jobId"

text \<open>The \<open>try\<close> block: the message of the error thrown, or the path of the APK.\<close>

definition zip_try ::
  "zip_env \<Rightarrow> string \<Rightarrow> string \<Rightarrow> string \<Rightarrow> string \<Rightarrow> (string + string) \<times> fs_call list" where
  "zip_try env tempDir zipPath projectType buildType =
     (case onProgress1 env of
        Some e \<Rightarrow> (Inl e, [])
      | None \<Rightarrow>
     (case ensureDir env of
        Some e \<Rightarrow> (Inl e, [EnsureDir tempDir])
      | None \<Rightarrow>
     (case extractAll env of
        Some e \<Rightarrow> (Inl e, [EnsureDir tempDir, ExtractAllTo zipPath tempDir])
      | None \<Rightarrow>
     (let calls3 = [EnsureDir tempDir, ExtractAllTo zipPath tempDir,
                    FindProjectRoot tempDir projectType]
      in case findProjectRoot env of
        Inl e \<Rightarrow> (Inl e, calls3)
      | Inr None \<Rightarrow>
          (Inl (''Invalid '' @ projectType @ '' project. Required files not found.''), calls3)
      | Inr (Some projectRoot) \<Rightarrow>
     (case onProgress2 env of
        Some e \<Rightarrow> (Inl e, calls3)
      | None \<Rightarrow>
     (let calls4 = calls3 @ [if projectType = ''flutter''
                             then BuildFlutter projectRoot buildType
                             else BuildAndroid projectRoot buildType]
      in case buildProject env of
        Inl e \<Rightarrow> (Inl e, calls4)
      | Inr apkPath \<Rightarrow> (Inr apkPath, calls4 @ [Remove zipPath (remove_ok env zipPath)])))))))"

definition buildFromZip ::
  "zip_env \<Rightarrow> string \<Rightarrow> string \<Rightarrow> string \<Rightarrow> string \<Rightarrow> build_result \<times> fs_call list" where
  "buildFromZip env jobId zipPath projectType buildType =
     (let tempDir = tempDirOf jobId
      in case zip_try env tempDir zipPath projectType buildType of
        (Inr apkPath, calls) \<Rightarrow> (BuildSuccess apkPath tempDir, calls)
      | (Inl e, calls) \<Rightarrow>
          (BuildFailure e,
           calls @ [Remove tempDir (remove_ok env tempDir), Remove zipPath (remove_ok env zipPath)]))"

definition remove_attempted :: "string \<Rightarrow> fs_call list \<Rightarrow> bool" where
  "remove_attempted path calls = (Remove path True \<in> set calls \<or> Remove path False \<in> set calls)"

text \<open>An environment in which every step succeeds and the removal of the ZIP fails.\<close>

definition all_steps_succeed :: zip_env where
  "all_steps_succeed =
     \<lparr>onProgress1 = None, ensureDir = None, extractAll = None,
      findProjectRoot = Inr (Some ''temp/job1/app''), onProgress2 = None,
      buildProject = Inr ''output/android_1.apk'', remove_ok = (\<lambda>path. False)\<rparr>"

text \<open>An environment in which the archive holds no project and both removals fail.\<close>

definition no_project_found :: zip_env where
  "no_project_found =
     \<lparr>onProgress1 = None, ensureDir = None, extractAll = None,
      findProjectRoot = Inr None, onProgress2 = None,
      buildProject = Inr ''output/android_1.apk'', remove_ok = (\<lambda>path. False)\<rparr>"

section \<open>The build handlers (src/handlers/callbackHandler.js)\<close>

text \<open>
  The handlers are \<open>async\<close> functions: they return a value or throw. What they touch of the
  shared state is the build queue and the session of the chat (\<open>None\<close>: no session;
  otherwise its \<open>step\<close>). Each awaited call of the Telegram client, \<open>fs.stat\<close> and
  \<open>registerBuildForDownload\<close> may throw; the environment says which do. The outcomes of
  the two pipelines, \<open>buildFromZip\<close> and \<open>buildApk\<close>, are taken from the environment as
  well.
\<close>

datatype 'a completion = Returned 'a | Threw

record handler_state =
  queue :: BuildQueue
  session :: "string option"

datatype try_exit = EarlyReturn | Completed | Caught

record zip_upload_env =
  acquire_time :: int
  busy_notice_ok :: bool
  status_message_ok :: bool
  zip_result :: build_result
  local_api_url :: bool
  apk_size :: "int option"
  register_ok :: bool
  link_message_ok :: bool
  success_message_ok :: bool
  send_document_ok :: bool
  final_message_ok :: bool
  error_message_ok :: bool

definition MAX_FILE_SIZE :: "bool \<Rightarrow> int" where
  "MAX_FILE_SIZE local = (if local then 2 * 1024 * 1024 * 1024 else 50 * 1024 * 1024)"

text \<open>
  The \<open>try\<close> block of \<open>handleZipUpload\<close>: it ends by the \<open>return true\<close> of the branch
  for an APK above the size limit, by reaching its end, or in the \<open>catch\<close> block.
\<close>

definition zip_upload_try :: "zip_upload_env \<Rightarrow> try_exit" where
  "zip_upload_try env =
     (case zip_result env of
        BuildFailure e \<Rightarrow> Caught
      | BuildSuccess apkPath buildDir \<Rightarrow>
          (case apk_size env of
             None \<Rightarrow> Caught
           | Some bytes \<Rightarrow>
               if bytes > MAX_FILE_SIZE (local_api_url env) then
                 (if register_ok env \<and> link_message_ok env then EarlyReturn else Caught)
               else if success_message_ok env \<and> send_document_ok env \<and> final_message_ok env
                    then Completed else Caught))"

definition handleZipUpload ::
  "zip_upload_env \<Rightarrow> chatId \<Rightarrow> handler_state \<Rightarrow> bool completion \<times> handler_state" where
  "handleZipUpload env chat s =
     (if session s \<noteq> Some ''zip_upload'' then (Returned False, s)
      else case acquire chat (acquire_time env) (queue s) of
        (False, q) \<Rightarrow>
          if busy_notice_ok env then (Returned True, s\<lparr>session := None\<rparr>) else (Threw, s)
      | (True, q) \<Rightarrow>
          (let s1 = s\<lparr>queue := q\<rparr>;
               released = s1\<lparr>queue := release chat q, session := None\<rparr>
           in if \<not> status_message_ok env then (Threw, s1)
              else case zip_upload_try env of
                EarlyReturn \<Rightarrow> (Returned True, s1)
              | Completed \<Rightarrow> (Returned True, released)
              | Caught \<Rightarrow>
                  if error_message_ok env then (Returned True, released) else (Threw, s1)))"

record confirm_env =
  acquire_time_c :: int
  busy_notice_ok_c :: bool
  start_message_ok :: bool
  progress_times :: "int list"
  apk_result :: "build_result option"
  delivery_ok :: bool
  error_message_ok_c :: bool

text \<open>
  \<open>confirmBuild\<close>: the progress callback calls \<open>buildQueue.updateActivity()\<close> with no
  argument at each progress event; \<open>apk_result\<close> is what \<open>buildApk\<close> returns (\<open>None\<close>: it
  throws); \<open>delivery_ok\<close> says that the messages and the report after a successful build
  all go through. The \<open>finally\<close> block releases the slot and deletes the session, whether
  the \<open>try\<close> block ended, the \<open>catch\<close> block ended, or the \<open>catch\<close> block threw.
\<close>

definition confirm_try_throws :: "confirm_env \<Rightarrow> bool" where
  "confirm_try_throws env =
     (case apk_result env of
        None \<Rightarrow> True
      | Some (BuildFailure e) \<Rightarrow> True
      | Some (BuildSuccess apkPath buildDir) \<Rightarrow> \<not> delivery_ok env)"

definition confirmBuild ::
  "confirm_env \<Rightarrow> chatId \<Rightarrow> handler_state \<Rightarrow> unit completion \<times> handler_state" where
  "confirmBuild env chat s =
     (if session s = None then (Returned (), s)
      else case acquire chat (acquire_time_c env) (queue s) of
        (False, q) \<Rightarrow>
          if busy_notice_ok_c env then (Returned (), s\<lparr>session := None\<rparr>) else (Threw, s)
      | (True, q) \<Rightarrow>
          (let s1 = s\<lparr>queue := q\<rparr>
           in if \<not> start_message_ok env then (Threw, s1)
              else
                (let q2 = foldl (\<lambda>q' t. updateActivity None t q') q (progress_times env);
                     cleaned = s1\<lparr>queue := release chat q2, session := None\<rparr>
                 in if confirm_try_throws env \<and> \<not> error_message_ok_c env
                    then (Threw, cleaned) else (Returned (), cleaned))))"

text \<open>
  A successful ZIP build whose APK (60 MB) is above the 50 MB limit of the standard Bot API,
  with every Telegram call going through.
\<close>

definition oversize_apk :: zip_upload_env where
  "oversize_apk =
     \<lparr>acquire_time = 1000, busy_notice_ok = True, status_message_ok = True,
      zip_result = BuildSuccess ''output/android_1.apk'' ''temp/job1'',
      local_api_url = False, apk_size = Some (60 * 1024 * 1024),
      register_ok = True, link_message_ok = True, success_message_ok = True,
      send_document_ok = True, final_message_ok = True, error_message_ok = True\<rparr>"

definition idle_chat :: handler_state where
  "idle_chat = \<lparr>queue = constructor None, session = Some ''zip_upload''\<rparr>"

section \<open>Properties of the build queue\<close>

subsection \<open>Sizes\<close>

lemma length_update_fresh:
  "map_of m c = None \<Longrightarrow> length (AList.update c v m) = Suc (length m)"
  by (induction m) (auto split: if_splits)

lemma length_map_entry: "length (AList.map_entry k f m) = length m"
  by (induction m) auto

lemma size_forceRelease:
  "map_size (activeBuilds (forceRelease c q)) \<le> map_size (activeBuilds q)"
  by (auto simp: forceRelease_def map_size_def length_delete_le split: option.splits)

lemma max_forceRelease: "maxConcurrent (forceRelease c q) = maxConcurrent q"
  by (auto simp: forceRelease_def split: option.splits)

lemma size_fold_forceRelease:
  "map_size (activeBuilds (foldl (\<lambda>q' c. forceRelease (Some c) q') q cs))
     \<le> map_size (activeBuilds q)"
proof (induction cs arbitrary: q)
  case Nil
  show ?case by simp
next
  case (Cons c cs)
  have "map_size (activeBuilds
          (foldl (\<lambda>q' c. forceRelease (Some c) q') (forceRelease (Some c) q) cs))
        \<le> map_size (activeBuilds (forceRelease (Some c) q))"
    by (rule Cons.IH)
  also have "\<dots> \<le> map_size (activeBuilds q)"
    by (rule size_forceRelease)
  finally show ?case by simp
qed

lemma max_fold_forceRelease:
  "maxConcurrent (foldl (\<lambda>q' c. forceRelease (Some c) q') q cs) = maxConcurrent q"
  by (induction cs arbitrary: q) (simp_all add: max_forceRelease)

lemma apply_queue_op_size:
  assumes "map_size (activeBuilds q) \<le> maxConcurrent q"
  shows "map_size (activeBuilds (apply_queue_op q op)) \<le> maxConcurrent (apply_queue_op q op)"
proof (cases op)
  case (Acquire c now)
  then show ?thesis using assms
    by (auto simp: acquire_def map_size_def map_has_def length_update_fresh)
next
  case (Release c)
  have "length (AList.delete c (activeBuilds q)) \<le> length (activeBuilds q)"
    by (rule length_delete_le)
  then show ?thesis using assms Release
    by (auto simp: release_def map_size_def split: option.splits)
next
  case (ForceRelease c)
  then show ?thesis using assms size_forceRelease [of c q]
    by (simp add: max_forceRelease)
next
  case (UpdateActivity c now)
  then show ?thesis using assms
    by (auto simp: updateActivity_def map_size_def length_map_entry split: option.splits)
next
  case (CheckStuckBuilds now)
  then show ?thesis
    using assms size_fold_forceRelease [of q "toRelease now (activeBuilds q)"]
    by (simp add: checkStuckBuilds_def max_fold_forceRelease)
qed

lemma apply_queue_op_max: "maxConcurrent (apply_queue_op q op) = maxConcurrent q"
  by (cases op) (auto simp: acquire_def release_def max_forceRelease updateActivity_def
      checkStuckBuilds_def max_fold_forceRelease split: option.splits)

lemma run_queue_size:
  "map_size (activeBuilds q) \<le> maxConcurrent q \<Longrightarrow>
   map_size (activeBuilds (run_queue q ops)) \<le> maxConcurrent (run_queue q ops)"
  unfolding run_queue_def
  by (induction ops arbitrary: q) (simp_all add: apply_queue_op_size)

lemma run_queue_max: "maxConcurrent (run_queue q ops) = maxConcurrent q"
  unfolding run_queue_def
  by (induction ops arbitrary: q) (simp_all add: apply_queue_op_max)

lemma constructor_range:
  "1 \<le> maxConcurrent (constructor v) \<and> maxConcurrent (constructor v) \<le> 4"
  by (simp add: constructor_def)

text \<open>
  C2. Whatever the value of \<open>MAX_CONCURRENT_BUILDS\<close> (missing, non-numeric, zero, negative,
  huge) and whatever sequence of \<open>acquire\<close>, \<open>release\<close>, \<open>forceRelease\<close>, \<open>updateActivity\<close>
  and watchdog passes follows the constructor, the number of entries of \<open>activeBuilds\<close> is at
  most \<open>maxConcurrent\<close>, and \<open>maxConcurrent\<close> is an integer between 1 and 4.
\<close>

theorem queue_size_bounded:
  "map_size (activeBuilds (run_queue (constructor v) ops))
     \<le> maxConcurrent (run_queue (constructor v) ops)
   \<and> 1 \<le> maxConcurrent (run_queue (constructor v) ops)
   \<and> maxConcurrent (run_queue (constructor v) ops) \<le> 4"
proof -
  have "map_size (activeBuilds (constructor v)) \<le> maxConcurrent (constructor v)"
    by (simp add: constructor_def map_size_def)
  then show ?thesis
    using run_queue_size [of "constructor v" ops] constructor_range [of v]
    by (simp add: run_queue_max)
qed

subsection \<open>Well-formed states\<close>

lemma set_update_subset: "set (AList.update k v m) \<subseteq> insert (k, v) (set m)"
  by (induction m) auto

lemma set_delete_subset: "set (AList.delete k m) \<subseteq> set m"
  by (auto simp: AList.delete_eq)

lemma set_map_entry:
  "p \<in> set (AList.map_entry k f m) \<Longrightarrow> p \<in> set m \<or> (\<exists>b. (fst p, b) \<in> set m \<and> snd p = f b)"
  by (induction m) (auto split: if_splits)

lemma wf_forceRelease: "wf_queue q \<Longrightarrow> wf_queue (forceRelease c q)"
  using set_delete_subset
  by (fastforce simp: wf_queue_def forceRelease_def distinct_delete split: option.splits)

lemma wf_fold_forceRelease:
  "wf_queue q \<Longrightarrow> wf_queue (foldl (\<lambda>q' c. forceRelease (Some c) q') q cs)"
  by (induction cs arbitrary: q) (simp_all add: wf_forceRelease)

lemma bump_all_keys: "map fst (map (\<lambda>(k, b). (k, f b)) m) = map fst m"
  by (induction m) auto

lemma wf_bump_all:
  assumes "wf_queue q" "truthy now"
  shows "wf_queue (q\<lparr>activeBuilds := map (\<lambda>(k, b). (k, bump now b)) (activeBuilds q)\<rparr>)"
proof -
  have "distinct (map fst (map (\<lambda>(k, b). (k, bump now b)) (activeBuilds q)))"
    using assms(1) by (simp only: bump_all_keys wf_queue_def)
  moreover have "\<forall>(c, b) \<in> set (map (\<lambda>(k, b). (k, bump now b)) (activeBuilds q)).
                   truthy c \<and> truthy (lastActivity b)"
    using assms by (auto simp: wf_queue_def bump_def)
  ultimately show ?thesis by (simp add: wf_queue_def)
qed

lemma wf_bump_entry:
  assumes "wf_queue q" "truthy now"
  shows "wf_queue (q\<lparr>activeBuilds := AList.map_entry c (bump now) (activeBuilds q)\<rparr>)"
  using assms
  by (auto simp: wf_queue_def distinct_map_entry bump_def dest!: set_map_entry)

lemma wf_apply_queue_op:
  assumes "wf_queue q" "wf_op op"
  shows "wf_queue (apply_queue_op q op)"
proof (cases op)
  case (Acquire c now)
  then show ?thesis using assms set_update_subset [of c "\<lparr>startTime = now, lastActivity = now\<rparr>" "activeBuilds q"]
    by (auto simp: acquire_def wf_queue_def distinct_update)
next
  case (Release c)
  then show ?thesis using assms set_delete_subset [of c "activeBuilds q"]
    by (auto simp: release_def wf_queue_def distinct_delete split: option.splits)
next
  case (ForceRelease c)
  then show ?thesis using assms by (simp add: wf_forceRelease)
next
  case (UpdateActivity c now)
  then show ?thesis using assms
    by (auto simp: updateActivity_def wf_bump_all wf_bump_entry split: option.splits)
next
  case (CheckStuckBuilds now)
  then show ?thesis using assms by (simp add: checkStuckBuilds_def wf_fold_forceRelease)
qed

lemma run_queue_wf_from:
  "wf_queue q \<Longrightarrow> \<forall>op \<in> set ops. wf_op op \<Longrightarrow> wf_queue (run_queue q ops)"
  unfolding run_queue_def
  by (induction ops arbitrary: q) (simp_all add: wf_apply_queue_op)

lemma run_queue_wf:
  "\<forall>op \<in> set ops. wf_op op \<Longrightarrow> wf_queue (run_queue (constructor v) ops)"
  by (rule run_queue_wf_from) (simp_all add: wf_queue_def constructor_def)

subsection \<open>A second \<open>acquire\<close> for the same id\<close>

lemma map_of_bump_all:
  "map_of (map (\<lambda>(k, b). (k, f b)) m) k = map_option f (map_of m k)"
  by (induction m) auto






subsection \<open>\<open>updateActivity\<close> with an id that holds no slot\<close>

text \<open>
  C10. \<open>updateActivity(c)\<close> with an id \<open>c\<close> that is not a key of \<open>activeBuilds\<close> does what
  the call without argument does: every slot gets \<open>lastActivity = now\<close> (slot \<open>k\<close> stands for
  any of them). When \<open>c\<close> is a key (and, as every Telegram chat id, not the falsy number 0),
  the slot of \<open>c\<close> gets \<open>lastActivity = now\<close> and every other slot \<open>k\<close> is left as it was.
  The call differs from the broadcast only when \<open>c\<close> is such a key.
\<close>

theorem updateActivity_absent_id_bumps_all:
  "(\<not> map_has (activeBuilds q) c \<longrightarrow>
      updateActivity (Some c) now q = updateActivity None now q \<and>
      map_of (activeBuilds (updateActivity (Some c) now q)) k
        = map_option (bump now) (map_of (activeBuilds q) k))
   \<and> (map_has (activeBuilds q) c \<and> truthy c \<longrightarrow>
      map_of (activeBuilds (updateActivity (Some c) now q)) c
        = map_option (bump now) (map_of (activeBuilds q) c) \<and>
      (k \<noteq> c \<longrightarrow> map_of (activeBuilds (updateActivity (Some c) now q)) k
            = map_of (activeBuilds q) k))
   \<and> (updateActivity (Some c) now q \<noteq> updateActivity None now q \<longrightarrow>
      map_has (activeBuilds q) c \<and> truthy c)"
  by (auto simp: updateActivity_def map_of_bump_all map_of_map_entry map_has_def)

text \<open>
  Witness for C10: slots for the chats 5 and 6; \<open>updateActivity(9)\<close> bumps both,
  \<open>updateActivity(5)\<close> bumps the slot of 5 only.
\<close>

theorem updateActivity_absent_id_bumps_all_witness:
  "\<not> map_has (activeBuilds \<lparr>maxConcurrent = 2, activeBuilds =
        [(5, \<lparr>startTime = 10, lastActivity = 20\<rparr>), (6, \<lparr>startTime = 30, lastActivity = 40\<rparr>)]\<rparr>) 9
   \<and> updateActivity (Some 9) 50 \<lparr>maxConcurrent = 2, activeBuilds =
        [(5, \<lparr>startTime = 10, lastActivity = 20\<rparr>), (6, \<lparr>startTime = 30, lastActivity = 40\<rparr>)]\<rparr>
      = updateActivity None 50 \<lparr>maxConcurrent = 2, activeBuilds =
        [(5, \<lparr>startTime = 10, lastActivity = 20\<rparr>), (6, \<lparr>startTime = 30, lastActivity = 40\<rparr>)]\<rparr>
   \<and> map_of (activeBuilds (updateActivity (Some 9) 50 \<lparr>maxConcurrent = 2, activeBuilds =
        [(5, \<lparr>startTime = 10, lastActivity = 20\<rparr>), (6, \<lparr>startTime = 30, lastActivity = 40\<rparr>)]\<rparr>)) 6
      = Some \<lparr>startTime = 30, lastActivity = 50\<rparr>
   \<and> map_has (activeBuilds \<lparr>maxConcurrent = 2, activeBuilds =
        [(5, \<lparr>startTime = 10, lastActivity = 20\<rparr>), (6, \<lparr>startTime = 30, lastActivity = 40\<rparr>)]\<rparr>) 5
   \<and> truthy 5
   \<and> map_of (activeBuilds (updateActivity (Some 5) 50 \<lparr>maxConcurrent = 2, activeBuilds =
        [(5, \<lparr>startTime = 10, lastActivity = 20\<rparr>), (6, \<lparr>startTime = 30, lastActivity = 40\<rparr>)]\<rparr>)) 5
      = Some \<lparr>startTime = 10, lastActivity = 50\<rparr>
   \<and> map_of (activeBuilds (updateActivity (Some 5) 50 \<lparr>maxConcurrent = 2, activeBuilds =
        [(5, \<lparr>startTime = 10, lastActivity = 20\<rparr>), (6, \<lparr>startTime = 30, lastActivity = 40\<rparr>)]\<rparr>)) 6
      = Some \<lparr>startTime = 30, lastActivity = 40\<rparr>
   \<and> updateActivity (Some 5) 50 \<lparr>maxConcurrent = 2, activeBuilds =
        [(5, \<lparr>startTime = 10, lastActivity = 20\<rparr>), (6, \<lparr>startTime = 30, lastActivity = 40\<rparr>)]\<rparr>
      \<noteq> updateActivity None 50 \<lparr>maxConcurrent = 2, activeBuilds =
        [(5, \<lparr>startTime = 10, lastActivity = 20\<rparr>), (6, \<lparr>startTime = 30, lastActivity = 40\<rparr>)]\<rparr>"
proof -
  let ?q = "\<lparr>maxConcurrent = 2, activeBuilds =
        [(5, \<lparr>startTime = 10, lastActivity = 20\<rparr>), (6, \<lparr>startTime = 30, lastActivity = 40\<rparr>)]\<rparr>"
  have differs: "updateActivity (Some 5) 50 ?q \<noteq> updateActivity None 50 ?q"
    by (simp add: updateActivity_def map_has_def truthy_def bump_def)
  have absent: "\<not> map_has (activeBuilds ?q) 9"
    by (simp add: map_has_def)
  have present: "map_has (activeBuilds ?q) 5 \<and> truthy 5"
    by (simp add: map_has_def truthy_def)
  have v5: "map_option (bump 50) (map_of (activeBuilds ?q) 5) = Some \<lparr>startTime = 10, lastActivity = 50\<rparr>"
    by (simp add: bump_def)
  have v6: "map_option (bump 50) (map_of (activeBuilds ?q) 6) = Some \<lparr>startTime = 30, lastActivity = 50\<rparr>"
    by (simp add: bump_def)
  have k6: "map_of (activeBuilds ?q) 6 = Some \<lparr>startTime = 30, lastActivity = 40\<rparr>" "(6::int) \<noteq> 5"
    by simp_all
  have i9: "updateActivity (Some 9) 50 ?q = updateActivity None 50 ?q
      \<and> map_of (activeBuilds (updateActivity (Some 9) 50 ?q)) 6
          = map_option (bump 50) (map_of (activeBuilds ?q) 6)"
    using updateActivity_absent_id_bumps_all [of ?q 9 50 6] absent by blast
  have i5: "map_of (activeBuilds (updateActivity (Some 5) 50 ?q)) 5
          = map_option (bump 50) (map_of (activeBuilds ?q) 5)
      \<and> map_of (activeBuilds (updateActivity (Some 5) 50 ?q)) 6 = map_of (activeBuilds ?q) 6"
    using updateActivity_absent_id_bumps_all [of ?q 5 50 6] present k6(2) by blast
  note e1 = i9 [THEN conjunct1]
  note e2 = i9 [THEN conjunct2, unfolded v6]
  note e3 = i5 [THEN conjunct1, unfolded v5]
  note e4 = i5 [THEN conjunct2, unfolded k6(1)]
  show ?thesis using e1 e2 e3 e4 absent present differs by blast
qed

subsection \<open>The watchdog pass\<close>

lemma forceRelease_truthy:
  "truthy c \<Longrightarrow> forceRelease (Some c) q = q\<lparr>activeBuilds := AList.delete c (activeBuilds q)\<rparr>"
  by (auto simp: forceRelease_def map_has_def delete_id map_of_eq_None_iff)

lemma fold_forceRelease_truthy:
  "\<forall>c \<in> set cs. truthy c \<Longrightarrow>
   foldl (\<lambda>q' c. forceRelease (Some c) q') q cs
     = q\<lparr>activeBuilds := filter (\<lambda>p. fst p \<notin> set cs) (activeBuilds q)\<rparr>"
proof (induction cs arbitrary: q)
  case Nil
  then show ?case by simp
next
  case (Cons c cs)
  have tc: "truthy c" and tcs: "\<forall>c \<in> set cs. truthy c" using Cons.prems by simp_all
  let ?q1 = "q\<lparr>activeBuilds := AList.delete c (activeBuilds q)\<rparr>"
  have "foldl (\<lambda>q' c. forceRelease (Some c) q') q (c # cs)
        = foldl (\<lambda>q' c. forceRelease (Some c) q') ?q1 cs"
    using tc by (simp add: forceRelease_truthy)
  also have "\<dots> = ?q1\<lparr>activeBuilds := filter (\<lambda>p. fst p \<notin> set cs) (activeBuilds ?q1)\<rparr>"
    using tcs by (rule Cons.IH)
  also have "filter (\<lambda>p. fst p \<notin> set cs) (activeBuilds ?q1)
             = filter (\<lambda>p. fst p \<notin> set (c # cs)) (activeBuilds q)"
    by (auto simp: AList.delete_eq case_prod_unfold intro!: filter_cong)
  finally show ?case by simp
qed

lemma checkStuckBuilds_filter:
  assumes "wf_queue q"
  shows "activeBuilds (checkStuckBuilds now q) = filter (\<lambda>(c, b). \<not> stuck now b) (activeBuilds q)"
proof (cases "map_size (activeBuilds q) = 0")
  case True
  then show ?thesis by (simp add: checkStuckBuilds_def map_size_def)
next
  case False
  have t: "\<forall>c \<in> set (toRelease now (activeBuilds q)). truthy c"
    using assms by (auto simp: wf_queue_def toRelease_def)
  have d: "distinct (map fst (activeBuilds q))" using assms by (simp add: wf_queue_def)
  have "filter (\<lambda>p. fst p \<notin> set (toRelease now (activeBuilds q))) (activeBuilds q)
        = filter (\<lambda>(c, b). \<not> stuck now b) (activeBuilds q)"
  proof (rule filter_cong [OF refl])
    fix p assume p: "p \<in> set (activeBuilds q)"
    obtain c b where cb: "p = (c, b)" by (cases p)
    have "c \<in> set (toRelease now (activeBuilds q)) \<longleftrightarrow> stuck now b"
    proof
      assume "c \<in> set (toRelease now (activeBuilds q))"
      then obtain b' where "(c, b') \<in> set (activeBuilds q)" "stuck now b'"
        by (auto simp: toRelease_def)
      moreover have "b' = b" using d p cb calculation(1) by (meson eq_key_imp_eq_value)
      ultimately show "stuck now b" by simp
    next
      assume "stuck now b"
      then show "c \<in> set (toRelease now (activeBuilds q))"
        using p cb by (force simp: toRelease_def)
    qed
    then show "(fst p \<notin> set (toRelease now (activeBuilds q))) = (case p of (c, b) \<Rightarrow> \<not> stuck now b)"
      using cb by simp
  qed
  then show ?thesis using False t
    by (simp add: checkStuckBuilds_def fold_forceRelease_truthy)
qed

text \<open>
  One watchdog pass on a well-formed state: what it does to a slot depends on the two ages
  of that slot only.
\<close>

lemma checkStuckBuilds_on_wf:
  assumes "wf_queue q" and "(c, b) \<in> set (activeBuilds q)"
  shows "(now - startTime b > 45 * 60 * 1000 \<longrightarrow>
            \<not> map_has (activeBuilds (checkStuckBuilds now q)) c)
       \<and> (now - lastActivity b > 10 * 60 * 1000 \<and> now - startTime b \<le> 45 * 60 * 1000 \<longrightarrow>
            \<not> map_has (activeBuilds (checkStuckBuilds now q)) c)
       \<and> (\<not> now - startTime b > 45 * 60 * 1000 \<and> \<not> now - lastActivity b > 10 * 60 * 1000 \<longrightarrow>
            map_of (activeBuilds (checkStuckBuilds now q)) c = Some b)"
proof -
  let ?m = "activeBuilds q"
  let ?m' = "filter (\<lambda>(c, b). \<not> stuck now b) ?m"
  have d: "distinct (map fst ?m)" using assms(1) by (simp add: wf_queue_def)
  have la: "truthy (lastActivity b)" using assms by (auto simp: wf_queue_def)
  have eq: "activeBuilds (checkStuckBuilds now q) = ?m'"
    using assms(1) by (rule checkStuckBuilds_filter)
  have d': "distinct (map fst ?m')" using d by (simp add: distinct_map_filter)
  have gone: "stuck now b \<Longrightarrow> map_of ?m' c = None"
  proof -
    assume s: "stuck now b"
    show "map_of ?m' c = None"
    proof (rule ccontr)
      assume "map_of ?m' c \<noteq> None"
      then obtain b' where "map_of ?m' c = Some b'" by auto
      then have "(c, b') \<in> set ?m'" by (rule map_of_SomeD)
      then have "(c, b') \<in> set ?m" "\<not> stuck now b'" by auto
      moreover have "b' = b" using d assms(2) calculation(1) by (meson eq_key_imp_eq_value)
      ultimately show False using s by simp
    qed
  qed
  have stays: "\<not> stuck now b \<Longrightarrow> map_of ?m' c = Some b"
    using d' assms(2) by (intro map_of_is_SomeI) auto
  show ?thesis
    using gone stays la
    by (auto simp: eq map_has_def stuck_def MAX_BUILD_TIME_def INACTIVITY_TIMEOUT_def Let_def)
qed

text \<open>
  C4. Take any queue state reached from the constructor by operations whose chat ids and
  clock readings are non-zero numbers (Telegram chat ids and \<open>Date.now()\<close> are). One
  watchdog pass at time \<open>now\<close> removes every slot with \<open>now - startTime > 45 min\<close>
  (whatever its \<open>lastActivity\<close>, so also one updated just before the pass), removes every
  slot with \<open>now - lastActivity > 10 min\<close> and \<open>now - startTime \<le> 45 min\<close>, and keeps every
  slot that meets neither condition, with the same \<open>startTime\<close> and \<open>lastActivity\<close>.
\<close>

theorem checkStuckBuilds_reclaims:
  assumes "\<forall>op \<in> set ops. wf_op op"
    and "(c, b) \<in> set (activeBuilds (run_queue (constructor v) ops))"
  shows "(now - startTime b > 45 * 60 * 1000 \<longrightarrow>
            \<not> map_has (activeBuilds (checkStuckBuilds now (run_queue (constructor v) ops))) c)
       \<and> (now - lastActivity b > 10 * 60 * 1000 \<and> now - startTime b \<le> 45 * 60 * 1000 \<longrightarrow>
            \<not> map_has (activeBuilds (checkStuckBuilds now (run_queue (constructor v) ops))) c)
       \<and> (\<not> now - startTime b > 45 * 60 * 1000 \<and> \<not> now - lastActivity b > 10 * 60 * 1000 \<longrightarrow>
            map_of (activeBuilds (checkStuckBuilds now (run_queue (constructor v) ops))) c
              = Some b)"
proof -
  have "wf_queue (run_queue (constructor v) ops)"
    using assms(1) by (rule run_queue_wf)
  then show ?thesis using assms(2) by (rule checkStuckBuilds_on_wf)
qed

text \<open>
  Witness for C4: three builds admitted at 1 s, 40 min and 48 min 20 s, the third and the
  first active again at 50 min 50 s and 51 min 39 s, and a watchdog pass at 51 min 40 s.
  The first is older than 45 minutes, the second has been silent for more than 10 minutes,
  the third stays.
\<close>

theorem checkStuckBuilds_reclaims_witness:
  "wf_op (Acquire 11 1000) \<and> wf_op (Acquire 12 2400000) \<and> wf_op (Acquire 13 2900000)
   \<and> wf_op (UpdateActivity (Some 13) 3050000) \<and> wf_op (UpdateActivity (Some 11) 3099000)
   \<and> activeBuilds (run_queue (constructor (Some ''3'')) three_builds)
       = [(11, \<lparr>startTime = 1000, lastActivity = 3099000\<rparr>),
          (12, \<lparr>startTime = 2400000, lastActivity = 2400000\<rparr>),
          (13, \<lparr>startTime = 2900000, lastActivity = 3050000\<rparr>)]
   \<and> \<not> map_has (activeBuilds (checkStuckBuilds 3100000
              (run_queue (constructor (Some ''3'')) three_builds))) 11
   \<and> \<not> map_has (activeBuilds (checkStuckBuilds 3100000
              (run_queue (constructor (Some ''3'')) three_builds))) 12
   \<and> map_of (activeBuilds (checkStuckBuilds 3100000
              (run_queue (constructor (Some ''3'')) three_builds))) 13
      = Some \<lparr>startTime = 2900000, lastActivity = 3050000\<rparr>"
proof -
  let ?q = "run_queue (constructor (Some ''3'')) three_builds"
  have c: "constructor (Some ''3'') = \<lparr>maxConcurrent = 3, activeBuilds = []\<rparr>"
    by (simp add: constructor_def parseInt_def isWhiteSpace_def isDigitOf_def digitValue_def
        digitsValue_def or_default_def truthy_def)
  have q: "activeBuilds ?q
       = [(11, \<lparr>startTime = 1000, lastActivity = 3099000\<rparr>),
          (12, \<lparr>startTime = 2400000, lastActivity = 2400000\<rparr>),
          (13, \<lparr>startTime = 2900000, lastActivity = 3050000\<rparr>)]"
    by (simp add: c three_builds_def run_queue_def acquire_def updateActivity_def map_has_def
        map_size_def bump_def truthy_def)
  have w: "\<forall>op \<in> set three_builds. wf_op op"
    by (simp add: three_builds_def truthy_def)
  have m1: "(11, \<lparr>startTime = 1000, lastActivity = 3099000\<rparr>) \<in> set (activeBuilds ?q)"
    and m2: "(12, \<lparr>startTime = 2400000, lastActivity = 2400000\<rparr>) \<in> set (activeBuilds ?q)"
    and m3: "(13, \<lparr>startTime = 2900000, lastActivity = 3050000\<rparr>) \<in> set (activeBuilds ?q)"
    by (simp_all add: q)
  have ops: "wf_op (Acquire 11 1000) \<and> wf_op (Acquire 12 2400000) \<and> wf_op (Acquire 13 2900000)
      \<and> wf_op (UpdateActivity (Some 13) 3050000) \<and> wf_op (UpdateActivity (Some 11) 3099000)"
    by (simp add: truthy_def)
  have r1: "\<not> map_has (activeBuilds (checkStuckBuilds 3100000 ?q)) 11"
    using checkStuckBuilds_reclaims [OF w m1, of 3100000] by simp
  have r2: "\<not> map_has (activeBuilds (checkStuckBuilds 3100000 ?q)) 12"
    using checkStuckBuilds_reclaims [OF w m2, of 3100000] by simp
  have r3: "map_of (activeBuilds (checkStuckBuilds 3100000 ?q)) 13
      = Some \<lparr>startTime = 2900000, lastActivity = 3050000\<rparr>"
    using checkStuckBuilds_reclaims [OF w m3, of 3100000] by simp
  show ?thesis using ops q r1 r2 r3 by blast
qed

section \<open>Properties of the APK search\<close>

lemma file_at_rest:
  "file_at (Directory rest) ds f \<Longrightarrow> file_at (Directory (x # rest)) ds f"
  by (cases ds) auto

lemma file_at_child:
  "file_at child ds f \<Longrightarrow> file_at (Directory ((item, child) # rest)) (item # ds) f"
  by simp

lemma file_at_here:
  "file_at (Directory ((f, RegularFile) # rest)) [] f"
  by simp

lemma found_ok_rest:
  "found_ok (Directory rest) dir ext m k p \<Longrightarrow> found_ok (Directory (x # rest)) dir ext m k p"
  unfolding found_ok_def using file_at_rest by blast

lemma found_ok_here:
  "k \<le> m \<Longrightarrow> suffix ext item \<Longrightarrow>
   found_ok (Directory ((item, RegularFile) # rest)) dir ext m k (dir @ [item])"
  unfolding found_ok_def
  by (rule exI [of _ "[]"], rule exI [of _ item]) simp

lemma found_ok_child:
  assumes "found_ok child (dir @ [item]) ext m (Suc k) p" "\<not> excluded item"
  shows "found_ok (Directory ((item, child) # rest)) dir ext m k p"
proof -
  from assms(1) obtain ds f where h: "p = (dir @ [item]) @ ds @ [f]" "Suc k + length ds \<le> m"
      "\<forall>d \<in> set ds. \<not> excluded d" "suffix ext f" "file_at child ds f"
    unfolding found_ok_def by blast
  have "p = dir @ (item # ds) @ [f]" using h(1) by simp
  moreover have "k + length (item # ds) \<le> m" using h(2) by simp
  moreover have "\<forall>d \<in> set (item # ds). \<not> excluded d" using h(3) assms(2) by simp
  moreover have "file_at (Directory ((item, child) # rest)) (item # ds) f"
    using h(5) by (rule file_at_child)
  ultimately show ?thesis unfolding found_ok_def using h(4) by blast
qed

lemma find_sound:
  "findFileRecursive n dir ext m k = Some p \<Longrightarrow> found_ok n dir ext m k p"
  "scanItems items dir ext m k = Some p \<Longrightarrow> k \<le> m \<Longrightarrow> found_ok (Directory items) dir ext m k p"
proof (induction n dir ext m k and items dir ext m k rule: findFileRecursive_scanItems.induct)
  case (1 items dir ext maxDepth depth)
  then show ?case by (simp split: if_splits)
next
  case (8 item rest dir ext maxDepth depth)
  then show ?case by (auto split: if_splits intro: found_ok_rest found_ok_here)
next
  case (9 item sub rest dir ext maxDepth depth)
  then show ?case
    by (auto split: if_splits option.splits simp: excluded_def
        intro: found_ok_rest found_ok_child)
next
  case (10 item rest dir ext maxDepth depth)
  then show ?case by (auto split: if_splits intro: found_ok_rest)
next
  case (11 item rest dir ext maxDepth depth)
  then show ?case by (auto intro: found_ok_rest)
qed simp_all

lemma find_complete:
  "stat_ok n \<Longrightarrow> file_at n ds f \<Longrightarrow> suffix ext f \<Longrightarrow> k + length ds \<le> m \<Longrightarrow>
     \<forall>d \<in> set ds. \<not> excluded d \<Longrightarrow> findFileRecursive n dir ext m k \<noteq> None"
  "stat_ok_items items \<Longrightarrow> file_at (Directory items) ds f \<Longrightarrow> suffix ext f \<Longrightarrow>
     k + length ds \<le> m \<Longrightarrow> \<forall>d \<in> set ds. \<not> excluded d \<Longrightarrow>
     scanItems items dir ext m k \<noteq> None"
proof (induction n dir ext m k and items dir ext m k arbitrary: ds and ds
    rule: findFileRecursive_scanItems.induct)
  case (1 items dir ext maxDepth depth)
  then show ?case by auto
next
  case (6 dir ext maxDepth depth)
  then show ?case by (cases ds) auto
next
  case (8 item rest dir ext maxDepth depth)
  show ?case
  proof (cases "suffix ext item")
    case True
    then show ?thesis by simp
  next
    case False
    have "file_at (Directory rest) ds f"
      using "8.prems"(2,3) False by (cases ds) auto
    then show ?thesis using "8.IH" "8.prems" False by simp
  qed
next
  case (9 item sub rest dir ext maxDepth depth)
  show ?case
  proof (cases "\<not> prefix ''.'' item \<and> item \<noteq> ''node_modules''")
    case ne: True
    show ?thesis
    proof (cases "findFileRecursive (Directory sub) (dir @ [item]) ext maxDepth (depth + 1)")
      case (Some found)
      then show ?thesis using ne by simp
    next
      case None
      have "file_at (Directory rest) ds f"
      proof (rule ccontr)
        assume "\<not> file_at (Directory rest) ds f"
        then obtain ds' where ds: "ds = item # ds'" and sub: "file_at (Directory sub) ds' f"
          using "9.prems"(2) by (cases ds) auto
        have "findFileRecursive (Directory sub) (dir @ [item]) ext maxDepth (depth + 1) \<noteq> None"
          using "9.IH"(1) [OF ne _ sub] "9.prems" ds by simp
        with None show False by simp
      qed
      then have "scanItems rest dir ext maxDepth depth \<noteq> None"
        using "9.IH"(2) [OF ne None] "9.prems" by simp
      then show ?thesis using ne None by simp
    qed
  next
    case ex: False
    have "file_at (Directory rest) ds f"
      using "9.prems"(2,5) ex by (cases ds) (auto simp: excluded_def)
    then have "scanItems rest dir ext maxDepth depth \<noteq> None"
      using "9.IH"(3) [OF ex] "9.prems" by simp
    then show ?thesis using ex by auto
  qed
next
  case (10 item rest dir ext maxDepth depth)
  have "file_at (Directory rest) ds f"
    using "10.prems"(2) by (cases ds) auto
  then show ?case using "10.IH" "10.prems" by (auto split: option.splits)
next
  case (11 item rest dir ext maxDepth depth)
  have "file_at (Directory rest) ds f"
    using "11.prems"(2) by (cases ds) auto
  then show ?case using "11.IH" "11.prems" by auto
qed simp_all


lemma file_at_only_dir:
  "file_at (Directory [(n, Directory sub)]) ds f
     = (\<exists>ds'. ds = n # ds' \<and> file_at (Directory sub) ds' f)"
  by (cases ds) auto

lemma tree6_files_deep: "file_at tree6 ds f \<Longrightarrow> 5 < length ds"
  by (auto simp: tree6_def file_at_only_dir)

text \<open>
  C9. The fallback search with the default \<open>maxDepth = 5\<close>: (1) whatever it returns is a
  regular file with the extension, below at most five directories of the start directory,
  none of which has a name starting with \<open>.\<close> or equal to \<open>node_modules\<close>; (2) when no
  \<open>fs.stat\<close> fails and such a file exists below at most five such directories (three, for
  instance), the search returns a file; (3) when every file with the extension lies below
  more than five directories (six, for instance) or below a skipped directory, the search
  returns \<open>null\<close>; (4) \<open>findApk\<close> runs exactly this search when none of its four probes
  exists.
\<close>

theorem findFileRecursive_bounded:
  "(findFileRecursive root dir ext 5 0 = Some p \<longrightarrow>
      (\<exists>ds f. p = dir @ ds @ [f] \<and> length ds \<le> 5 \<and> (\<forall>d \<in> set ds. \<not> excluded d)
         \<and> suffix ext f \<and> file_at root ds f))
   \<and> (stat_ok root \<and> file_at root ds f \<and> suffix ext f \<and> length ds \<le> 5
        \<and> (\<forall>d \<in> set ds. \<not> excluded d) \<longrightarrow>
      findFileRecursive root dir ext 5 0 \<noteq> None)
   \<and> ((\<forall>ds' f'. file_at root ds' f' \<and> suffix ext f' \<longrightarrow>
          5 < length ds' \<or> (\<exists>d \<in> set ds'. excluded d)) \<longrightarrow>
      findFileRecursive root dir ext 5 0 = None)
   \<and> (find (path_exists root) (possiblePaths buildType) = None \<longrightarrow>
      findApk root dir buildType = findFileRecursive root dir ''.apk'' 5 0)"
proof -
  have sound: "\<And>q. findFileRecursive root dir ext 5 0 = Some q \<Longrightarrow>
      \<exists>ds f. q = dir @ ds @ [f] \<and> length ds \<le> 5 \<and> (\<forall>d \<in> set ds. \<not> excluded d)
         \<and> suffix ext f \<and> file_at root ds f"
    using find_sound(1) [of root dir ext 5 0] by (simp add: found_ok_def)
  have complete: "stat_ok root \<and> file_at root ds f \<and> suffix ext f \<and> length ds \<le> 5
        \<and> (\<forall>d \<in> set ds. \<not> excluded d) \<longrightarrow> findFileRecursive root dir ext 5 0 \<noteq> None"
    using find_complete(1) [of root ds f ext 0 5 dir] by simp
  have none: "(\<forall>ds' f'. file_at root ds' f' \<and> suffix ext f' \<longrightarrow>
          5 < length ds' \<or> (\<exists>d \<in> set ds'. excluded d)) \<longrightarrow>
      findFileRecursive root dir ext 5 0 = None"
  proof (intro impI)
    assume far: "\<forall>ds' f'. file_at root ds' f' \<and> suffix ext f' \<longrightarrow>
          5 < length ds' \<or> (\<exists>d \<in> set ds'. excluded d)"
    show "findFileRecursive root dir ext 5 0 = None"
    proof (rule ccontr)
      assume "findFileRecursive root dir ext 5 0 \<noteq> None"
      then obtain q where "findFileRecursive root dir ext 5 0 = Some q" by auto
      from sound [OF this] obtain ds' f' where "length ds' \<le> 5" "\<forall>d \<in> set ds'. \<not> excluded d"
          "suffix ext f'" "file_at root ds' f'" by blast
      with far show False by (meson not_le)
    qed
  qed
  have apk: "find (path_exists root) (possiblePaths buildType) = None \<longrightarrow>
      findApk root dir buildType = findFileRecursive root dir ''.apk'' 5 0"
    by (simp add: findApk_def)
  show ?thesis using sound [of p] complete none apk by blast
qed

text \<open>
  Witness for C9: in \<open>tree3\<close> the only APK outside \<open>.gradle\<close> and \<open>node_modules\<close> lies
  three directories deep and is found, also through \<open>findApk\<close>; in \<open>tree6\<close> the only APK
  lies six directories deep and the search returns \<open>null\<close>.
\<close>

theorem findFileRecursive_bounded_witness:
  "findFileRecursive tree3 [''proj''] ''.apk'' 5 0
      = Some [''proj'', ''dist'', ''android'', ''bin'', ''app.apk'']
   \<and> (\<exists>ds f. [''proj'', ''dist'', ''android'', ''bin'', ''app.apk''] = [''proj''] @ ds @ [f]
         \<and> length ds \<le> 5 \<and> (\<forall>d \<in> set ds. \<not> excluded d) \<and> suffix ''.apk'' f
         \<and> file_at tree3 ds f)
   \<and> stat_ok tree3
   \<and> file_at tree3 [''dist'', ''android'', ''bin''] ''app.apk''
   \<and> suffix ''.apk'' ''app.apk''
   \<and> length [''dist'', ''android'', ''bin''] \<le> 5
   \<and> \<not> excluded ''dist'' \<and> \<not> excluded ''android'' \<and> \<not> excluded ''bin''
   \<and> findFileRecursive tree3 [''proj''] ''.apk'' 5 0 \<noteq> None
   \<and> file_at tree6 [''a'', ''b'', ''c'', ''d'', ''e'', ''f''] ''app.apk''
   \<and> findFileRecursive tree6 [''proj''] ''.apk'' 5 0 = None
   \<and> find (path_exists tree3) (possiblePaths ''release'') = None
   \<and> findApk tree3 [''proj''] ''release'' = findFileRecursive tree3 [''proj''] ''.apk'' 5 0"
proof -
  let ?p = "[''proj'', ''dist'', ''android'', ''bin'', ''app.apk'']"
  let ?ds = "[''dist'', ''android'', ''bin'']"
  have found: "findFileRecursive tree3 [''proj''] ''.apk'' 5 0 = Some ?p"
    by (simp add: tree3_def suffix_to_prefix)
  have hyp2: "stat_ok tree3 \<and> file_at tree3 ?ds ''app.apk'' \<and> suffix ''.apk'' ''app.apk''
      \<and> length ?ds \<le> 5 \<and> (\<forall>d \<in> set ?ds. \<not> excluded d)"
    by (simp add: tree3_def suffix_to_prefix excluded_def)
  have hyp3: "\<forall>ds' f'. file_at tree6 ds' f' \<and> suffix ''.apk'' f' \<longrightarrow>
      5 < length ds' \<or> (\<exists>d \<in> set ds'. excluded d)"
    using tree6_files_deep by blast
  have hyp4: "find (path_exists tree3) (possiblePaths ''release'') = None"
    by (simp add: tree3_def possiblePaths_def)
  have deep: "file_at tree6 [''a'', ''b'', ''c'', ''d'', ''e'', ''f''] ''app.apk''"
    by (simp add: tree6_def)
  note t3 = findFileRecursive_bounded [of tree3 "[''proj'']" "''.apk''" ?p ?ds "''app.apk''" "''release''"]
  note t6 = findFileRecursive_bounded [of tree6 "[''proj'']" "''.apk''" ?p ?ds "''app.apk''" "''release''"]
  have c1: "\<exists>ds f. ?p = [''proj''] @ ds @ [f]
         \<and> length ds \<le> 5 \<and> (\<forall>d \<in> set ds. \<not> excluded d) \<and> suffix ''.apk'' f
         \<and> file_at tree3 ds f"
    using t3 found by blast
  have c2: "findFileRecursive tree3 [''proj''] ''.apk'' 5 0 \<noteq> None"
    using t3 hyp2 by blast
  have c3: "findFileRecursive tree6 [''proj''] ''.apk'' 5 0 = None"
    using t6 hyp3 by blast
  have c4: "findApk tree3 [''proj''] ''release'' = findFileRecursive tree3 [''proj''] ''.apk'' 5 0"
    using t3 hyp4 by blast
  have hyp2': "stat_ok tree3" "file_at tree3 ?ds ''app.apk''" "suffix ''.apk'' ''app.apk''"
      "length ?ds \<le> 5" "\<not> excluded ''dist''" "\<not> excluded ''android''" "\<not> excluded ''bin''"
    using hyp2 by simp_all
  show ?thesis
    using found c1 hyp2' c2 deep c3 hyp4 c4 by blast
qed

section \<open>Properties of the process supervisor\<close>

subsection \<open>The timeouts of the two supervisors\<close>

text \<open>Once the timer is removed, chunks and polls change neither the promise nor the kill.\<close>

lemma runCommand_after_timer:
  "only_output_and_polls evs \<Longrightarrow> \<not> timer p \<Longrightarrow>
   killed (foldl (on_event cb L) p evs) = killed p
   \<and> settled (foldl (on_event cb L) p evs) = settled p
   \<and> \<not> timer (foldl (on_event cb L) p evs)"
proof (induction evs arbitrary: p)
  case Nil
  then show ?case by simp
next
  case (Cons ev evs)
  show ?case
  proof (cases ev)
    case (StdoutData now chunk)
    then show ?thesis using Cons.prems Cons.IH [of "on_event cb L p ev"] by simp
  next
    case (StderrData now chunk)
    then show ?thesis using Cons.prems Cons.IH [of "on_event cb L p ev"] by simp
  next
    case (Close code)
    then show ?thesis using Cons.prems by simp
  next
    case (SpawnError err)
    then show ?thesis using Cons.prems by simp
  next
    case (Tick now)
    then show ?thesis using Cons.prems Cons.IH [of p] by simp
  qed
qed

lemma runGradle_after_timer:
  "only_output_and_polls evs \<Longrightarrow> \<not> g_timer g \<Longrightarrow>
   sigkill_sent (foldl on_gradle_event g evs) = sigkill_sent g
   \<and> g_settled (foldl on_gradle_event g evs) = g_settled g
   \<and> \<not> g_timer (foldl on_gradle_event g evs)"
proof (induction evs arbitrary: g)
  case Nil
  then show ?case by simp
next
  case (Cons ev evs)
  show ?case
  proof (cases ev)
    case (StdoutData now chunk)
    then show ?thesis using Cons.prems Cons.IH [of "on_gradle_event g ev"] by simp
  next
    case (StderrData now chunk)
    then show ?thesis using Cons.prems Cons.IH [of "on_gradle_event g ev"] by simp
  next
    case (Close code)
    then show ?thesis using Cons.prems by simp
  next
    case (SpawnError err)
    then show ?thesis using Cons.prems by simp
  next
    case (Tick now)
    then show ?thesis using Cons.prems Cons.IH [of g] by simp
  qed
qed

text \<open>
  \<open>runCommand\<close> on a live process: it is killed exactly when some poll comes more than
  \<open>TIMEOUT_MS\<close> after the latest chunk before it.
\<close>

lemma runCommand_live:
  assumes "only_output_and_polls evs" "timer p" "\<not> killed p" "settled p = None"
  shows "(polled_within_of_output TIMEOUT_MS (lastActivity_p p) evs \<longrightarrow>
            \<not> killed (foldl (on_event cb L) p evs)
            \<and> settled (foldl (on_event cb L) p evs) = None
            \<and> timer (foldl (on_event cb L) p evs))
       \<and> (\<not> polled_within_of_output TIMEOUT_MS (lastActivity_p p) evs \<longrightarrow>
            killed (foldl (on_event cb L) p evs)
            \<and> settled (foldl (on_event cb L) p evs)
                = Some (Reject ''Build timeout (30 minutes of inactivity)'')
            \<and> \<not> timer (foldl (on_event cb L) p evs))"
  using assms
proof (induction evs arbitrary: p)
  case Nil
  then show ?case by simp
next
  case (Cons ev evs)
  show ?case
  proof (cases ev)
    case (StdoutData now chunk)
    then show ?thesis using Cons.prems Cons.IH [of "on_event cb L p ev"] by simp
  next
    case (StderrData now chunk)
    then show ?thesis using Cons.prems Cons.IH [of "on_event cb L p ev"] by simp
  next
    case (Close code)
    then show ?thesis using Cons.prems by simp
  next
    case (SpawnError err)
    then show ?thesis using Cons.prems by simp
  next
    case (Tick now)
    show ?thesis
    proof (cases "now - lastActivity_p p > TIMEOUT_MS")
      case late: True
      let ?p' = "on_event cb L p (Tick now)"
      have p': "killed ?p'" "settled ?p' = Some (Reject ''Build timeout (30 minutes of inactivity)'')"
        "\<not> timer ?p'"
        using late Cons.prems by (simp_all add: settle_def)
      have "only_output_and_polls evs" using Cons.prems(1) Tick by simp
      from runCommand_after_timer [OF this p'(3), of cb L] p'
      have "killed (foldl (on_event cb L) ?p' evs)
          \<and> settled (foldl (on_event cb L) ?p' evs)
              = Some (Reject ''Build timeout (30 minutes of inactivity)'')
          \<and> \<not> timer (foldl (on_event cb L) ?p' evs)"
        by simp
      then show ?thesis using late Tick by simp
    next
      case False
      then have same: "on_event cb L p (Tick now) = p" by simp
      show ?thesis using False Tick same Cons.prems Cons.IH [of p] by simp
    qed
  qed
qed

text \<open>
  \<open>runGradle\<close> on a live process: it is killed exactly when some poll comes more than
  \<open>TIMEOUT_MS_gradle\<close> after the start, whatever the process has written.
\<close>

lemma runGradle_live:
  assumes "only_output_and_polls evs" "g_timer g" "\<not> sigkill_sent g" "g_settled g = None"
  shows "(polled_within_of_start TIMEOUT_MS_gradle (buildStartTime g) evs \<longrightarrow>
            \<not> sigkill_sent (foldl on_gradle_event g evs)
            \<and> g_settled (foldl on_gradle_event g evs) = None
            \<and> g_timer (foldl on_gradle_event g evs))
       \<and> (\<not> polled_within_of_start TIMEOUT_MS_gradle (buildStartTime g) evs \<longrightarrow>
            sigkill_sent (foldl on_gradle_event g evs)
            \<and> g_settled (foldl on_gradle_event g evs)
                = Some (GradleFailure gradle_timeout_error)
            \<and> \<not> g_timer (foldl on_gradle_event g evs))"
  using assms
proof (induction evs arbitrary: g)
  case Nil
  then show ?case by simp
next
  case (Cons ev evs)
  show ?case
  proof (cases ev)
    case (StdoutData now chunk)
    then show ?thesis using Cons.prems Cons.IH [of "on_gradle_event g ev"] by simp
  next
    case (StderrData now chunk)
    then show ?thesis using Cons.prems Cons.IH [of "on_gradle_event g ev"] by simp
  next
    case (Close code)
    then show ?thesis using Cons.prems by simp
  next
    case (SpawnError err)
    then show ?thesis using Cons.prems by simp
  next
    case (Tick now)
    show ?thesis
    proof (cases "now - buildStartTime g > TIMEOUT_MS_gradle")
      case late: True
      let ?g' = "on_gradle_event g (Tick now)"
      have g': "sigkill_sent ?g'" "g_settled ?g' = Some (GradleFailure gradle_timeout_error)"
        "\<not> g_timer ?g'"
        using late Cons.prems by (simp_all add: resolve_def)
      have "only_output_and_polls evs" using Cons.prems(1) Tick by simp
      from runGradle_after_timer [OF this g'(3)] g'
      have "sigkill_sent (foldl on_gradle_event ?g' evs)
          \<and> g_settled (foldl on_gradle_event ?g' evs) = Some (GradleFailure gradle_timeout_error)
          \<and> \<not> g_timer (foldl on_gradle_event ?g' evs)"
        by simp
      then show ?thesis using late Tick by simp
    next
      case False
      then have same: "on_gradle_event g (Tick now) = g" by simp
      show ?thesis using False Tick same Cons.prems Cons.IH [of g] by simp
    qed
  qed
qed

text \<open>
  C3 (amended). The absolute-from-start policy is that of \<open>runGradle\<close>, the supervisor of
  the Gradle step of the templated-URL pipeline; \<open>runCommand\<close>, the supervisor of the steps
  of the ZIP pipeline, has the inactivity policy. Take a child process that is alive (it
  writes chunks and is polled; no \<open>close\<close>, no \<open>error\<close>), started at \<open>start\<close>.
  (1) Under \<open>runGradle\<close> (wrapper jar present or downloaded): if some poll comes more than
  30 minutes after the start, \<open>gradle.kill('SIGKILL')\<close> is called, the timer is removed and
  the step resolves with the failure \<open>Build timeout (exceeded 30 minutes). ...\<close>, however
  much the process has written; if every poll comes within 30 minutes of the start,
  nothing is killed and the promise is pending.
  (2) Under \<open>runCommand\<close>: if some poll comes more than 30 minutes after the latest chunk
  before it (after the start, when there is none), \<open>proc.kill()\<close> is called, the timer is
  removed and the promise is rejected with \<open>Build timeout (30 minutes of inactivity)\<close>; if
  every poll comes within 30 minutes of the latest chunk, nothing is killed and the promise
  is pending, however long ago the process started.
\<close>

theorem supervisors_timeout_policies:
  assumes "only_output_and_polls evs" and "jar \<noteq> DownloadFailed"
  shows "(\<not> polled_within_of_start (30 * 60 * 1000) start evs \<longrightarrow>
            sigkill_sent (runGradle jar start evs)
            \<and> g_settled (runGradle jar start evs)
                = Some (GradleFailure
                    ''Build timeout (exceeded 30 minutes). Server mungkin overloaded, coba lagi nanti.'')
            \<and> \<not> g_timer (runGradle jar start evs))
       \<and> (polled_within_of_start (30 * 60 * 1000) start evs \<longrightarrow>
            \<not> sigkill_sent (runGradle jar start evs)
            \<and> g_settled (runGradle jar start evs) = None)
       \<and> (\<not> polled_within_of_output (30 * 60 * 1000) start evs \<longrightarrow>
            killed (runCommand cb L start evs)
            \<and> settled (runCommand cb L start evs)
                = Some (Reject ''Build timeout (30 minutes of inactivity)'')
            \<and> \<not> timer (runCommand cb L start evs))
       \<and> (polled_within_of_output (30 * 60 * 1000) start evs \<longrightarrow>
            \<not> killed (runCommand cb L start evs)
            \<and> settled (runCommand cb L start evs) = None)"
proof -
  have g: "g_timer (gradle_spawn jar start)" "\<not> sigkill_sent (gradle_spawn jar start)"
    "g_settled (gradle_spawn jar start) = None" "buildStartTime (gradle_spawn jar start) = start"
    by (simp_all add: gradle_spawn_def)
  have c: "timer (spawn start)" "\<not> killed (spawn start)" "settled (spawn start) = None"
    "lastActivity_p (spawn start) = start"
    by (simp_all add: spawn_def)
  have rg: "runGradle jar start evs = foldl on_gradle_event (gradle_spawn jar start) evs"
    using assms(2) by (simp add: runGradle_def)
  have rc: "runCommand cb L start evs = foldl (on_event cb L) (spawn start) evs"
    by (simp add: runCommand_def)
  have d: "TIMEOUT_MS_gradle = 30 * 60 * 1000" "TIMEOUT_MS = 30 * 60 * 1000"
    by (simp_all add: TIMEOUT_MS_gradle_def TIMEOUT_MS_def)
  note G = runGradle_live [OF assms(1) g(1) g(2) g(3), unfolded g(4) d(1), folded rg]
  note C = runCommand_live [OF assms(1) c(1) c(2) c(3), of cb L, unfolded c(4) d(2), folded rc]
  show ?thesis using G C by (simp only: gradle_timeout_error_def) blast
qed

text \<open>
  Witness for C3. First run: chunks every 25 minutes, polled a minute after each, up to
  minute 101: \<open>runGradle\<close> kills (the poll at minute 51 is the first beyond 30 minutes from
  the start), \<open>runCommand\<close> does not. Second run: one chunk after 1 second, then a poll 30
  minutes and 1 millisecond after that chunk: \<open>runCommand\<close> kills. Third run: the same
  chunk and a poll 29 minutes after the start: \<open>runGradle\<close> does not kill.
\<close>

theorem supervisors_timeout_policies_witness:
  "only_output_and_polls chatty_run \<and> Present \<noteq> DownloadFailed
   \<and> \<not> polled_within_of_start (30 * 60 * 1000) 0 chatty_run
   \<and> sigkill_sent (runGradle Present 0 chatty_run)
   \<and> g_settled (runGradle Present 0 chatty_run)
       = Some (GradleFailure
           ''Build timeout (exceeded 30 minutes). Server mungkin overloaded, coba lagi nanti.'')
   \<and> polled_within_of_output (30 * 60 * 1000) 0 chatty_run
   \<and> \<not> killed (runCommand True ''build_1.log'' 0 chatty_run)
   \<and> settled (runCommand True ''build_1.log'' 0 chatty_run) = None
   \<and> only_output_and_polls [StdoutData 1000 ''a'', Tick 1801001]
   \<and> \<not> polled_within_of_output (30 * 60 * 1000) 0 [StdoutData 1000 ''a'', Tick 1801001]
   \<and> killed (runCommand True ''build_1.log'' 0 [StdoutData 1000 ''a'', Tick 1801001])
   \<and> settled (runCommand True ''build_1.log'' 0 [StdoutData 1000 ''a'', Tick 1801001])
       = Some (Reject ''Build timeout (30 minutes of inactivity)'')
   \<and> only_output_and_polls [StdoutData 1000 ''a'', Tick 1740000]
   \<and> polled_within_of_start (30 * 60 * 1000) 0 [StdoutData 1000 ''a'', Tick 1740000]
   \<and> \<not> sigkill_sent (runGradle Present 0 [StdoutData 1000 ''a'', Tick 1740000])
   \<and> g_settled (runGradle Present 0 [StdoutData 1000 ''a'', Tick 1740000]) = None"
proof -
  have a1: "only_output_and_polls chatty_run" by (simp add: chatty_run_def)
  have a2: "Present \<noteq> DownloadFailed" by simp
  have a3: "\<not> polled_within_of_start (30 * 60 * 1000) 0 chatty_run"
    by (simp add: chatty_run_def)
  have a4: "polled_within_of_output (30 * 60 * 1000) 0 chatty_run"
    by (simp add: chatty_run_def)
  have b1: "only_output_and_polls [StdoutData 1000 ''a'', Tick 1801001]" by simp
  have b2: "\<not> polled_within_of_output (30 * 60 * 1000) 0 [StdoutData 1000 ''a'', Tick 1801001]"
    by simp
  have c1: "only_output_and_polls [StdoutData 1000 ''a'', Tick 1740000]" by simp
  have c2: "polled_within_of_start (30 * 60 * 1000) 0 [StdoutData 1000 ''a'', Tick 1740000]"
    by simp
  note A = supervisors_timeout_policies [OF a1 a2, of 0 True "''build_1.log''"]
  note B = supervisors_timeout_policies [OF b1 a2, of 0 True "''build_1.log''"]
  note C = supervisors_timeout_policies [OF c1 a2, of 0 True "''build_1.log''"]
  show ?thesis using A B C a1 a2 a3 a4 b1 b2 c1 c2 by blast
qed

text \<open>
  Whatever duration \<open>D\<close> an absolute deadline of \<open>runCommand\<close> would have, some run is polled
  more than \<open>D\<close> after its start and is neither killed nor settled.
\<close>

lemma runCommand_no_absolute_deadline:
  "\<exists>evs now. now - start > D \<and> last evs = Tick now
      \<and> \<not> killed (runCommand cb L start evs) \<and> settled (runCommand cb L start evs) = None"
proof -
  let ?t = "start + max D 0 + 1"
  let ?evs = "[StdoutData ?t [], Tick ?t]"
  have "\<not> killed (runCommand cb L start ?evs) \<and> settled (runCommand cb L start ?evs) = None"
    by (simp add: runCommand_def spawn_def TIMEOUT_MS_def)
  moreover have "?t - start > D" by simp
  ultimately show ?thesis by (intro exI [of _ ?evs] exI [of _ ?t]) simp
qed

text \<open>
  Counterexample to C3 as stated, of \<open>runCommand\<close>: a process started at time 0 that writes
  a chunk every 25 minutes is polled at minute 101, far beyond the 30 minutes of
  \<open>TIMEOUT_MS\<close>, and is not killed; its promise is still pending.
\<close>

theorem runCommand_absolute_timeout_counterexample:
  "\<not> killed (runCommand True ''build.log'' 0
       [StdoutData 1500000 ''a'', Tick 1560000, StdoutData 3000000 ''b'', Tick 3060000,
        StdoutData 4500000 ''c'', Tick 4560000, StdoutData 6000000 ''d'', Tick 6060000])
   \<and> settled (runCommand True ''build.log'' 0
       [StdoutData 1500000 ''a'', Tick 1560000, StdoutData 3000000 ''b'', Tick 3060000,
        StdoutData 4500000 ''c'', Tick 4560000, StdoutData 6000000 ''d'', Tick 6060000]) = None
   \<and> 6060000 - 0 > TIMEOUT_MS"
  by (simp add: runCommand_def spawn_def TIMEOUT_MS_def)

subsection \<open>Forwarding of stderr chunks\<close>

lemma sublist_map: "sublist xs ys \<Longrightarrow> sublist (map f xs) (map f ys)"
proof -
  assume "sublist xs ys"
  then obtain ps ss where "ys = ps @ xs @ ss" by (auto simp: sublist_def)
  then have "map f ys = map f ps @ map f xs @ map f ss" by simp
  then show ?thesis unfolding sublist_def by blast
qed

lemma canon_error: "map canonicalize ''error'' = ''ERROR''" "map canonicalize ''Error'' = ''ERROR''"
  "map canonicalize ''Exception'' = ''EXCEPTION''" "map canonicalize ''exception'' = ''EXCEPTION''"
  by (simp_all add: canonicalize_def)

lemma spelled_imp_ignoring_case:
  "js_includes text ''error'' \<or> js_includes text ''Error'' \<or> js_includes text ''Exception'' \<Longrightarrow>
   includes_ignoring_case text ''error'' \<or> includes_ignoring_case text ''exception''"
  unfolding js_includes_def includes_ignoring_case_def
  using sublist_map [of "''error''" "text" canonicalize]
    sublist_map [of "''Error''" "text" canonicalize]
    sublist_map [of "''Exception''" "text" canonicalize]
  by (auto simp only: canon_error)

text \<open>
  C5 (amended). With an output callback, a stderr chunk is forwarded, as \<open>[!] \<close> followed by
  its first 150 characters, exactly when it contains one of the spellings \<open>error\<close>,
  \<open>Error\<close> or \<open>Exception\<close> (case-sensitive); otherwise nothing is forwarded. Every
  forwarded chunk therefore contains \<open>error\<close> or \<open>exception\<close> up to letter case, so a chunk
  without such a substring is never forwarded.
\<close>

theorem stderr_forwarded_on_exact_spellings:
  "(forwarded (on_event True L p (StderrData now text)) = forwarded p @ [''[!] '' @ take 150 text])
     = (js_includes text ''error'' \<or> js_includes text ''Error'' \<or> js_includes text ''Exception'')
   \<and> (forwarded (on_event True L p (StderrData now text)) = forwarded p)
     = (\<not> (js_includes text ''error'' \<or> js_includes text ''Error'' \<or> js_includes text ''Exception''))
   \<and> (forwarded (on_event True L p (StderrData now text)) \<noteq> forwarded p \<longrightarrow>
        includes_ignoring_case text ''error'' \<or> includes_ignoring_case text ''exception'')"
  using spelled_imp_ignoring_case [of "text"]
  by (auto simp: stderrForward_def)

text \<open>Witness for C5: a chunk with the spelling \<open>Error\<close>.\<close>

theorem stderr_forwarded_on_exact_spellings_witness:
  "forwarded (on_event True ''build_1.log'' (spawn 0) (StderrData 7 ''lib/a.dart: Error: no'')) \<noteq> forwarded (spawn 0)
   \<and> forwarded (on_event True ''build_1.log'' (spawn 0) (StderrData 7 ''lib/a.dart: Error: no''))
       = forwarded (spawn 0) @ [''[!] '' @ take 150 ''lib/a.dart: Error: no'']
   \<and> js_includes ''lib/a.dart: Error: no'' ''Error''
   \<and> (includes_ignoring_case ''lib/a.dart: Error: no'' ''error''
        \<or> includes_ignoring_case ''lib/a.dart: Error: no'' ''exception'')"
proof -
  have i: "js_includes ''lib/a.dart: Error: no'' ''Error''"
    by (simp add: js_includes_def sublist_code)
  note t = stderr_forwarded_on_exact_spellings [of "''build_1.log''" "spawn 0" 7 "''lib/a.dart: Error: no''"]
  have f: "forwarded (on_event True ''build_1.log'' (spawn 0) (StderrData 7 ''lib/a.dart: Error: no''))
       = forwarded (spawn 0) @ [''[!] '' @ take 150 ''lib/a.dart: Error: no'']"
    using t i by blast
  then have n: "forwarded (on_event True ''build_1.log'' (spawn 0) (StderrData 7 ''lib/a.dart: Error: no''))
       \<noteq> forwarded (spawn 0)"
    by simp
  show ?thesis using t i f n by blast
qed
text \<open>
  Counterexample to C5 as stated: the chunk \<open>ERROR: disk full\<close> contains \<open>error\<close> up to
  letter case and is not forwarded.
\<close>

theorem stderr_uppercase_not_forwarded_counterexample:
  "includes_ignoring_case ''ERROR: disk full'' ''error''
   \<and> forwarded (on_event True ''build.log'' (spawn 0) (StderrData 5 ''ERROR: disk full'')) = []"
  by (simp add: includes_ignoring_case_def canonicalize_def stderrForward_def js_includes_def spawn_def sublist_code)

subsection \<open>The message of a failed command\<close>

lemma dropWhile_keeps_bad:
  "(\<exists>x \<in> set (dropWhile P xs). \<not> P x) = (\<exists>x \<in> set xs. \<not> P x)"
  by (induction xs) auto

lemma trim_nonblank: "(trim l \<noteq> []) = nonblank l"
proof -
  have "(trim l \<noteq> []) = (\<exists>x \<in> set (rev (dropWhile isWhiteSpace l)). \<not> isWhiteSpace x)"
    by (simp add: trim_def dropWhile_eq_Nil_conv)
  also have "\<dots> = (\<exists>x \<in> set l. \<not> isWhiteSpace x)"
    by (simp add: dropWhile_keeps_bad)
  finally show ?thesis by (simp add: nonblank_def)
qed

lemma join_nonempty:
  "ls \<noteq> [] \<Longrightarrow> \<forall>l \<in> set ls. l \<noteq> [] \<Longrightarrow> join sep ls \<noteq> []"
  by (induction sep ls rule: join.induct) auto

lemma nonblank_nonempty: "nonblank l \<Longrightarrow> l \<noteq> []"
  by (auto simp: nonblank_def)

lemma slice_last_Nil: "0 < n \<Longrightarrow> (slice_last n xs = []) = (xs = [])"
  by (cases xs) (auto simp: slice_last_def)

lemma set_slice_last: "set (slice_last n xs) \<subseteq> set xs"
  by (simp add: slice_last_def set_drop_subset)

lemma lastLines_nonblank: "lastLines s = slice_last 20 (filter nonblank (split newline s))"
  by (simp add: lastLines_def trim_nonblank)

lemma join_lastLines_Nil:
  "(join [newline] (lastLines s) = []) = (\<not> (\<exists>l \<in> set (split newline s). nonblank l))"
proof (cases "filter nonblank (split newline s) = []")
  case True
  then show ?thesis
    by (simp add: lastLines_nonblank slice_last_def filter_empty_conv)
next
  case False
  then have ne: "lastLines s \<noteq> []" by (simp add: lastLines_nonblank slice_last_Nil)
  have "\<forall>l \<in> set (lastLines s). l \<noteq> []"
    using set_slice_last [of 20 "filter nonblank (split newline s)"]
    by (auto simp: lastLines_nonblank dest: nonblank_nonempty)
  with ne have "join [newline] (lastLines s) \<noteq> []" by (rule join_nonempty)
  moreover have "\<exists>l \<in> set (split newline s). nonblank l"
    using False by (auto simp: filter_empty_conv)
  ultimately show ?thesis by simp
qed

lemma no_match_errorLines:
  assumes "\<forall>p \<in> set errorPatterns. js_match s p = []"
  shows "errorLines s = []"
proof -
  have "matchedLines s = []" using assms by (simp add: matchedLines_def)
  then show ?thesis by (simp add: errorLines_def uniq_def)
qed

lemma scan_Nil_iff:
  "(scan p s 0 = []) = (\<forall>t. suffix t s \<and> t \<noteq> [] \<longrightarrow> \<not> literalAt p t)"
proof (induction s)
  case Nil
  then show ?case by simp
next
  case (Cons c cs)
  have "(scan p (c # cs) 0 = []) = (\<not> literalAt p (c # cs) \<and> scan p cs 0 = [])"
    by simp
  also have "\<dots> = (\<not> literalAt p (c # cs) \<and> (\<forall>t. suffix t cs \<and> t \<noteq> [] \<longrightarrow> \<not> literalAt p t))"
    by (simp only: Cons.IH)
  also have "\<dots> = (\<forall>t. suffix t (c # cs) \<and> t \<noteq> [] \<longrightarrow> \<not> literalAt p t)"
    by (auto simp: suffix_Cons)
  finally show ?case .
qed

lemma js_match_Nil_iff:
  assumes "pat_literal p \<noteq> []"
  shows "(js_match s p = []) =
     (if ignoreCase p then \<not> sublist (map canonicalize (pat_literal p)) (map canonicalize s)
      else \<not> sublist (pat_literal p) s)"
proof (cases "ignoreCase p")
  case False
  have "(\<exists>t. suffix t s \<and> t \<noteq> [] \<and> prefix (pat_literal p) t) = sublist (pat_literal p) s"
    using assms by (auto simp: sublist_altdef')
  then show ?thesis using False
    by (auto simp: js_match_def scan_Nil_iff literalAt_def)
next
  case True
  let ?l = "map canonicalize (pat_literal p)"
  have "(\<exists>t. suffix t s \<and> t \<noteq> [] \<and> prefix ?l (map canonicalize t)) = sublist ?l (map canonicalize s)"
  proof
    assume "\<exists>t. suffix t s \<and> t \<noteq> [] \<and> prefix ?l (map canonicalize t)"
    then obtain t where t: "suffix t s" "prefix ?l (map canonicalize t)" by blast
    from t(1) have "suffix (map canonicalize t) (map canonicalize s)" by (rule map_mono_suffix)
    with t(2) show "sublist ?l (map canonicalize s)" by (auto simp: sublist_altdef')
  next
    assume "sublist ?l (map canonicalize s)"
    then obtain ps ss where e: "map canonicalize s = ps @ ?l @ ss" by (auto simp: sublist_def)
    let ?t = "drop (length ps) s"
    have "map canonicalize ?t = ?l @ ss"
      using e by (metis append_eq_conv_conj drop_map)
    moreover have "suffix ?t s" by (rule suffix_drop)
    moreover have "?t \<noteq> []" using calculation(1) assms by auto
    ultimately show "\<exists>t. suffix t s \<and> t \<noteq> [] \<and> prefix ?l (map canonicalize t)"
      by (metis prefixI)
  qed
  then show ?thesis using True
    by (auto simp: js_match_def scan_Nil_iff literalAt_def)
qed


text \<open>
  No pattern matches exactly when the output contains none of \<open>FAILURE:\<close>, \<open>Error:\<close>,
  \<open>Exception:\<close> and \<open>* What went wrong:\<close>, and none of \<open>error:\<close>, \<open>could not\<close>,
  \<open>cannot\<close>, \<open>failed\<close> and \<open>not found\<close> in any letter case.
\<close>

lemma no_error_pattern_matches_iff:
  "(\<forall>p \<in> set errorPatterns. js_match s p = []) =
     (\<not> js_includes s ''FAILURE:'' \<and> \<not> includes_ignoring_case s ''error:''
      \<and> \<not> js_includes s ''Error:'' \<and> \<not> js_includes s ''Exception:''
      \<and> \<not> js_includes s ''* What went wrong:'' \<and> \<not> includes_ignoring_case s ''Could not''
      \<and> \<not> includes_ignoring_case s ''Cannot'' \<and> \<not> includes_ignoring_case s ''failed''
      \<and> \<not> includes_ignoring_case s ''not found'')"
  by (simp add: errorPatterns_def js_match_Nil_iff includes_ignoring_case_def js_includes_def)

text \<open>
  C8 (amended). When the command exits with a code other than 0 and none of the nine error
  patterns matches \<open>stdout + '\n' + stderr\<close>, the promise is rejected with a message of at
  most 1500 characters followed by the pointer to the \<open>.error\<close> log: the message is the
  last 20 non-blank lines of the combined output joined by newlines when there is a
  non-blank line, and \<open>Build failed with code\<close> followed by the exit code when there is none.
\<close>

theorem onClose_fallback_message:
  assumes "code \<noteq> Some 0"
    and "\<forall>p \<in> set errorPatterns. js_match (out @ [newline] @ err) p = []"
  shows "onClose logFile code out err =
     Reject (take 1500
               (if \<exists>l \<in> set (split newline (out @ [newline] @ err)). nonblank l
                then join [newline]
                       (slice_last 20 (filter nonblank (split newline (out @ [newline] @ err))))
                else ''Build failed with code '' @ show_code code)
             @ [newline, newline] @ ''[Debug log: '' @ logFile @ ''.error]'')"
proof -
  let ?s = "out @ [newline] @ err"
  have el: "errorLines ?s = []" using assms(2) by (rule no_match_errorLines)
  have msg: "errorMsg code ?s =
      (if \<exists>l \<in> set (split newline ?s). nonblank l
       then join [newline] (slice_last 20 (filter nonblank (split newline ?s)))
       else ''Build failed with code '' @ show_code code)"
  proof (cases "\<exists>l \<in> set (split newline ?s). nonblank l")
    case True
    then have "join [newline] (lastLines ?s) \<noteq> []" by (simp only: join_lastLines_Nil simp_thms)
    then have "errorMsg code ?s = join [newline] (lastLines ?s)"
      using el by (simp only: errorMsg_def simp_thms if_True if_False)
    then show ?thesis using True by (simp only: lastLines_nonblank if_True)
  next
    case False
    then have "join [newline] (lastLines ?s) = []" by (simp only: join_lastLines_Nil simp_thms)
    then have "errorMsg code ?s = ''Build failed with code '' @ show_code code"
      using el by (simp only: errorMsg_def simp_thms if_True if_False)
    then show ?thesis using False by (simp only: if_False)
  qed
  have "onClose logFile code out err = Reject (take 1500 (errorMsg code ?s) @ debugPointer logFile)"
    using assms(1) by (simp add: onClose_def allOutput_def)
  then show ?thesis by (simp only: msg debugPointer_def)
qed

lemma show_code_1: "show_code (Some 1) = ''1''"
  by (simp add: show_code_def)

lemma silent_no_match: "matchedLines (allOutput [] []) = []"
  by (simp add: matchedLines_def errorPatterns_def js_match_def literalAt_def
      allOutput_def newline_def canonicalize_def)

lemma silent_lastLines: "lastLines (allOutput [] []) = []"
  by (simp add: lastLines_def allOutput_def newline_def trim_def isWhiteSpace_def slice_last_def)

lemma silent_no_nonblank: "filter nonblank (split newline (allOutput [] [])) = []"
  by (simp add: allOutput_def nonblank_def)


text \<open>
  Counterexample to C8 as stated: a command that fails with code 1 and no output. No
  pattern matches; the message is \<open>Build failed with code 1\<close>, not the (empty) join of the
  last non-blank lines.
\<close>

theorem onClose_silent_failure_counterexample:
  "matchedLines (allOutput [] []) = []
   \<and> onClose ''build_1.log'' (Some 1) [] []
       = Reject (''Build failed with code 1'' @ [newline, newline] @ ''[Debug log: build_1.log.error]'')
   \<and> onClose ''build_1.log'' (Some 1) [] []
       \<noteq> Reject (take 1500 (join [newline] (slice_last 20 (filter nonblank
                    (split newline (allOutput [] [])))))
                 @ [newline, newline] @ ''[Debug log: build_1.log.error]'')"
proof -
  have el: "errorLines (allOutput [] []) = []"
    by (simp add: errorLines_def silent_no_match uniq_def)
  have msg: "errorMsg (Some 1) (allOutput [] []) = ''Build failed with code 1''"
    by (simp add: errorMsg_def el silent_lastLines show_code_1)
  have r: "onClose ''build_1.log'' (Some 1) [] []
       = Reject (''Build failed with code 1'' @ [newline, newline] @ ''[Debug log: build_1.log.error]'')"
    by (simp add: onClose_def msg debugPointer_def)
  show ?thesis
    by (simp add: silent_no_match r silent_no_nonblank slice_last_def)
qed

lemma quiet_output: "quiet_out @ [newline] @ quiet_err = ''ok'' @ [newline] @ '' '' @ [newline] @ ''boom''"
  by (simp add: quiet_out_def quiet_err_def)

lemma quiet_no_match: "\<forall>p \<in> set errorPatterns. js_match (quiet_out @ [newline] @ quiet_err) p = []"
  unfolding quiet_output by code_simp


lemma quiet_lines: "split newline (quiet_out @ [newline] @ quiet_err) = [''ok'', '' '', ''boom'']"
  by (simp add: quiet_out_def quiet_err_def newline_def)

lemma quiet_nonblank: "filter nonblank [''ok'', '' '', ''boom''] = [''ok'', ''boom'']"
  by (simp add: nonblank_def isWhiteSpace_def)

text \<open>Witness for C8: exit code 1, output \<open>ok\<close>, a blank line, and \<open>boom\<close> on stderr.\<close>

theorem onClose_fallback_message_witness:
  "Some 1 \<noteq> Some (0::int)
   \<and> list_all (\<lambda>p. js_match (quiet_out @ [newline] @ quiet_err) p = []) errorPatterns
   \<and> onClose ''build_1.log'' (Some 1) quiet_out quiet_err
       = Reject (''ok'' @ [newline] @ ''boom''
                 @ [newline, newline] @ ''[Debug log: build_1.log.error]'')"
proof -
  have h1: "Some 1 \<noteq> Some (0::int)" by simp
  have nb: "\<exists>l \<in> set [''ok'', '' '', ''boom'']. nonblank l"
    by (simp add: nonblank_def isWhiteSpace_def)
  have j: "take 1500 (join [newline] (slice_last 20 [''ok'', ''boom'']))
      = ''ok'' @ [newline] @ ''boom''"
    by (simp add: slice_last_def)
  from onClose_fallback_message [OF h1 quiet_no_match, of "''build_1.log''"]
  have "onClose ''build_1.log'' (Some 1) quiet_out quiet_err
       = Reject (take 1500 (join [newline] (slice_last 20 [''ok'', ''boom'']))
                 @ [newline, newline] @ ''[Debug log: '' @ ''build_1.log'' @ ''.error]'')"
    using nb by (simp only: quiet_lines quiet_nonblank if_True)
  then have "onClose ''build_1.log'' (Some 1) quiet_out quiet_err
       = Reject (''ok'' @ [newline] @ ''boom''
                 @ [newline, newline] @ ''[Debug log: build_1.log.error]'')"
    by (simp only: j append.simps)
  then show ?thesis using quiet_no_match by (simp only: list_all_iff h1 simp_thms)
qed

section \<open>Properties of the ZIP build pipeline\<close>

lemma zip_try_no_temp_removal:
  "zipPath \<noteq> tempDir \<Longrightarrow>
   \<not> remove_attempted tempDir (snd (zip_try env tempDir zipPath projectType buildType))"
  by (auto simp: zip_try_def remove_attempted_def Let_def split: option.splits sum.splits)

lemma zip_try_success_removes_zip:
  "zip_try env tempDir zipPath projectType buildType = (Inr apkPath, calls) \<Longrightarrow>
   remove_attempted zipPath calls"
  by (auto simp: zip_try_def remove_attempted_def Let_def split: option.splits sum.splits)

lemma zip_try_result_ignores_removal:
  "fst (zip_try (env\<lparr>remove_ok := f\<rparr>) tempDir zipPath projectType buildType)
     = fst (zip_try env tempDir zipPath projectType buildType)"
  by (auto simp: zip_try_def Let_def split: option.splits sum.splits)

text \<open>
  C6 (amended). When \<open>buildFromZip\<close> fails, it attempts the removal of its working
  directory and of the uploaded ZIP, in this order, as its last two calls. When it succeeds,
  it attempts the removal of the ZIP only: the working directory is not removed and is
  returned as \<open>buildDir\<close>. In both cases the result does not depend on whether a removal
  failed.
\<close>

theorem buildFromZip_cleanup:
  "(fst (buildFromZip env jobId zipPath projectType buildType) = BuildFailure e \<longrightarrow>
      remove_attempted (tempDirOf jobId) (snd (buildFromZip env jobId zipPath projectType buildType))
      \<and> remove_attempted zipPath (snd (buildFromZip env jobId zipPath projectType buildType)))
   \<and> (fst (buildFromZip env jobId zipPath projectType buildType) = BuildSuccess apkPath buildDir
        \<and> zipPath \<noteq> tempDirOf jobId \<longrightarrow>
      buildDir = tempDirOf jobId
      \<and> remove_attempted zipPath (snd (buildFromZip env jobId zipPath projectType buildType))
      \<and> \<not> remove_attempted (tempDirOf jobId)
            (snd (buildFromZip env jobId zipPath projectType buildType)))
   \<and> fst (buildFromZip (env\<lparr>remove_ok := f\<rparr>) jobId zipPath projectType buildType)
       = fst (buildFromZip env jobId zipPath projectType buildType)"
proof -
  let ?t = "zip_try env (tempDirOf jobId) zipPath projectType buildType"
  obtain r calls where t: "?t = (r, calls)" by (cases ?t)
  have fail: "fst (buildFromZip env jobId zipPath projectType buildType) = BuildFailure e \<longrightarrow>
      remove_attempted (tempDirOf jobId) (snd (buildFromZip env jobId zipPath projectType buildType))
      \<and> remove_attempted zipPath (snd (buildFromZip env jobId zipPath projectType buildType))"
    using t by (cases r) (auto simp: buildFromZip_def Let_def remove_attempted_def)
  have ok: "fst (buildFromZip env jobId zipPath projectType buildType) = BuildSuccess apkPath buildDir
        \<and> zipPath \<noteq> tempDirOf jobId \<longrightarrow>
      buildDir = tempDirOf jobId
      \<and> remove_attempted zipPath (snd (buildFromZip env jobId zipPath projectType buildType))
      \<and> \<not> remove_attempted (tempDirOf jobId)
            (snd (buildFromZip env jobId zipPath projectType buildType))"
  proof (cases r)
    case (Inl msg)
    then show ?thesis using t by (simp add: buildFromZip_def Let_def)
  next
    case (Inr apk)
    have "remove_attempted zipPath calls"
      using t Inr zip_try_success_removes_zip by blast
    moreover have "zipPath \<noteq> tempDirOf jobId \<Longrightarrow> \<not> remove_attempted (tempDirOf jobId) calls"
      using zip_try_no_temp_removal [of zipPath "tempDirOf jobId" env projectType buildType] t
      by simp
    ultimately show ?thesis using t Inr by (auto simp: buildFromZip_def Let_def)
  qed
  have same: "fst (buildFromZip (env\<lparr>remove_ok := f\<rparr>) jobId zipPath projectType buildType)
       = fst (buildFromZip env jobId zipPath projectType buildType)"
    using zip_try_result_ignores_removal [of f env "tempDirOf jobId" zipPath projectType buildType]
    by (cases "zip_try (env\<lparr>remove_ok := f\<rparr>) (tempDirOf jobId) zipPath projectType buildType";
        cases ?t)
       (auto simp: buildFromZip_def Let_def split: sum.splits)
  show ?thesis using fail ok same by blast
qed

text \<open>
  Witness for C6: an archive without a project (a failure with both removals failing) and
  a build in which every step succeeds.
\<close>

theorem buildFromZip_cleanup_witness:
  "fst (buildFromZip no_project_found ''job1'' ''uploads/p.zip'' ''android'' ''debug'')
      = BuildFailure ''Invalid android project. Required files not found.''
   \<and> remove_attempted (tempDirOf ''job1'')
        (snd (buildFromZip no_project_found ''job1'' ''uploads/p.zip'' ''android'' ''debug''))
   \<and> remove_attempted ''uploads/p.zip''
        (snd (buildFromZip no_project_found ''job1'' ''uploads/p.zip'' ''android'' ''debug''))
   \<and> fst (buildFromZip all_steps_succeed ''job1'' ''uploads/p.zip'' ''android'' ''debug'')
      = BuildSuccess ''output/android_1.apk'' ''temp/job1''
   \<and> ''uploads/p.zip'' \<noteq> tempDirOf ''job1''
   \<and> remove_attempted ''uploads/p.zip''
        (snd (buildFromZip all_steps_succeed ''job1'' ''uploads/p.zip'' ''android'' ''debug''))
   \<and> \<not> remove_attempted (tempDirOf ''job1'')
        (snd (buildFromZip all_steps_succeed ''job1'' ''uploads/p.zip'' ''android'' ''debug''))"
proof -
  have f: "fst (buildFromZip no_project_found ''job1'' ''uploads/p.zip'' ''android'' ''debug'')
      = BuildFailure ''Invalid android project. Required files not found.''"
    by (simp add: buildFromZip_def Let_def zip_try_def no_project_found_def)
  have s: "fst (buildFromZip all_steps_succeed ''job1'' ''uploads/p.zip'' ''android'' ''debug'')
      = BuildSuccess ''output/android_1.apk'' ''temp/job1''"
    by (simp add: buildFromZip_def Let_def zip_try_def all_steps_succeed_def tempDirOf_def)
  have d: "''uploads/p.zip'' \<noteq> tempDirOf ''job1''"
    by (simp add: tempDirOf_def)
  note a = buildFromZip_cleanup [of no_project_found "''job1''" "''uploads/p.zip''" "''android''"
      "''debug''" "''Invalid android project. Required files not found.''"
      "''output/android_1.apk''" "''temp/job1''"]
  note b = buildFromZip_cleanup [of all_steps_succeed "''job1''" "''uploads/p.zip''" "''android''"
      "''debug''" "''Invalid android project. Required files not found.''"
      "''output/android_1.apk''" "''temp/job1''"]
  show ?thesis using a b f s d by blast
qed

text \<open>
  Counterexample to C6 as stated: when every step succeeds, \<open>buildFromZip\<close> returns success
  and has not attempted to remove its working directory.
\<close>

theorem buildFromZip_success_keeps_tempDir_counterexample:
  "fst (buildFromZip all_steps_succeed ''job1'' ''uploads/p.zip'' ''android'' ''debug'')
      = BuildSuccess ''output/android_1.apk'' ''temp/job1''
   \<and> snd (buildFromZip all_steps_succeed ''job1'' ''uploads/p.zip'' ''android'' ''debug'')
      = [EnsureDir ''temp/job1'', ExtractAllTo ''uploads/p.zip'' ''temp/job1'',
         FindProjectRoot ''temp/job1'' ''android'', BuildAndroid ''temp/job1/app'' ''debug'',
         Remove ''uploads/p.zip'' False]
   \<and> \<not> remove_attempted (tempDirOf ''job1'')
        (snd (buildFromZip all_steps_succeed ''job1'' ''uploads/p.zip'' ''android'' ''debug''))"
  by (simp add: buildFromZip_def Let_def zip_try_def all_steps_succeed_def tempDirOf_def
      remove_attempted_def)

section \<open>Properties of the build handlers\<close>

lemma release_removes: "\<not> map_has (activeBuilds (release chat q)) chat"
  by (auto simp: release_def map_has_def delete_conv' split: option.splits)

text \<open>
  \<open>confirmBuild\<close> frees the slot whenever it gets past its first message: the build may
  succeed, fail or throw, and the error message may fail to be sent.
\<close>

lemma confirmBuild_releases:
  assumes "session s \<noteq> None" "start_message_ok env"
    and "fst (acquire chat (acquire_time_c env) (queue s))"
  shows "\<not> map_has (activeBuilds (queue (snd (confirmBuild env chat s)))) chat"
proof -
  obtain q where "acquire chat (acquire_time_c env) (queue s) = (True, q)"
    using assms(3) by (cases "acquire chat (acquire_time_c env) (queue s)") auto
  then show ?thesis using assms(1,2)
    by (auto simp: confirmBuild_def Let_def release_removes)
qed

text \<open>
  \<open>handleZipUpload\<close> frees the slot when its \<open>try\<close> block runs to its end, and when the
  \<open>catch\<close> block manages to send the error message.
\<close>

lemma handleZipUpload_releases:
  assumes "session s = Some ''zip_upload''" "status_message_ok env"
    and "fst (acquire chat (acquire_time env) (queue s))"
    and "zip_upload_try env = Completed \<or> (zip_upload_try env = Caught \<and> error_message_ok env)"
  shows "\<not> map_has (activeBuilds (queue (snd (handleZipUpload env chat s)))) chat"
proof -
  obtain q where "acquire chat (acquire_time env) (queue s) = (True, q)"
    using assms(3) by (cases "acquire chat (acquire_time env) (queue s)") auto
  then show ?thesis using assms(1,2,4)
    by (auto simp: handleZipUpload_def Let_def release_removes)
qed

text \<open>
  C1, at the failing input. A chat with a pending ZIP upload and an empty queue of capacity
  1: the build succeeds with an APK of 60 MB, above the 50 MB limit. \<open>handleZipUpload\<close>
  returns \<open>true\<close> from inside its \<open>try\<close> block; the slot acquired at time 1000 is still in
  \<open>activeBuilds\<close>, the session is still there, and the queue refuses the next \<open>acquire\<close>.
\<close>

theorem handleZipUpload_oversize_keeps_slot:
  "handleZipUpload oversize_apk 42 idle_chat
     = (Returned True,
        \<lparr>queue = \<lparr>maxConcurrent = 1,
                  activeBuilds = [(42, \<lparr>startTime = 1000, lastActivity = 1000\<rparr>)]\<rparr>,
         session = Some ''zip_upload''\<rparr>)
   \<and> map_has (activeBuilds (queue (snd (handleZipUpload oversize_apk 42 idle_chat)))) 42
   \<and> fst (acquire 43 2000 (queue (snd (handleZipUpload oversize_apk 42 idle_chat)))) = False"
proof -
  have c: "constructor None = \<lparr>maxConcurrent = 1, activeBuilds = []\<rparr>"
    by (simp add: constructor_def parseInt_def isWhiteSpace_def isDigitOf_def digitValue_def
        or_default_def)
  have t: "zip_upload_try oversize_apk = EarlyReturn"
    by (simp add: zip_upload_try_def oversize_apk_def MAX_FILE_SIZE_def)
  have h: "handleZipUpload oversize_apk 42 idle_chat
     = (Returned True,
        \<lparr>queue = \<lparr>maxConcurrent = 1,
                  activeBuilds = [(42, \<lparr>startTime = 1000, lastActivity = 1000\<rparr>)]\<rparr>,
         session = Some ''zip_upload''\<rparr>)"
    by (simp add: handleZipUpload_def Let_def idle_chat_def c acquire_def map_has_def
        map_size_def t)
       (simp add: oversize_apk_def)
  show ?thesis
    by (simp add: h acquire_def map_has_def map_size_def)
qed

end
